theory Spec2Isabelle
  imports Main
begin

section \<open>JavaScript values\<close>

text \<open>
  The values that flow through the Cortex client (\<^verbatim>\<open>src/index.js\<close>) are JSON values:
  frames parsed by \<^verbatim>\<open>safeParse\<close>, parameter objects handed to bound methods, payloads of
  responses. \<^verbatim>\<open>JUndefined\<close> is what a property read yields when the property is absent
  (and what a caller may store explicitly).

  Conventions of the embedding:
  \<^item> numbers are integers (\<^verbatim>\<open>JNum\<close>); fractions, NaN and the limits of doubles are not
    represented;
  \<^item> an object is the list of its own enumerable properties in the order
    \<^verbatim>\<open>Object.keys\<close> enumerates them, with distinct keys; a read takes the first binding;
  \<^item> every object is a plain one: its prototype is \<^verbatim>\<open>Object.prototype\<close>, whose property
    names (\<open>object_prototype_names\<close>) are visible to a computed read \<^verbatim>\<open>obj[key]\<close>;
  \<^item> two arrays or two objects are never the same reference.
\<close>

datatype jsval =
    JUndefined
  | JNull
  | JBool bool
  | JNum int
  | JStr string
  | JArr "jsval list"
  | JObj "(string \<times> jsval) list"

text \<open>The conversion to boolean of \<^verbatim>\<open>if (x)\<close>, \<^verbatim>\<open>!x\<close>, \<^verbatim>\<open>x ? a : b\<close> and \<^verbatim>\<open>x && y\<close>.\<close>

fun truthy :: "jsval \<Rightarrow> bool" where
  "truthy JUndefined = False"
| "truthy JNull = False"
| "truthy (JBool b) = b"
| "truthy (JNum n) = (n \<noteq> 0)"
| "truthy (JStr s) = (s \<noteq> [])"
| "truthy (JArr xs) = True"
| "truthy (JObj kvs) = True"

text \<open>The loose comparison \<^verbatim>\<open>x == null\<close>: true of \<^verbatim>\<open>null\<close> and \<^verbatim>\<open>undefined\<close> only.\<close>

fun nullish :: "jsval \<Rightarrow> bool" where
  "nullish JUndefined = True"
| "nullish JNull = True"
| "nullish (JBool b) = False"
| "nullish (JNum n) = False"
| "nullish (JStr s) = False"
| "nullish (JArr xs) = False"
| "nullish (JObj kvs) = False"

text \<open>\<^verbatim>\<open>Array.isArray(x)\<close>.\<close>

fun isArray :: "jsval \<Rightarrow> bool" where
  "isArray (JArr xs) = True"
| "isArray JUndefined = False"
| "isArray JNull = False"
| "isArray (JBool b) = False"
| "isArray (JNum n) = False"
| "isArray (JStr s) = False"
| "isArray (JObj kvs) = False"

text \<open>
  The strict comparison \<^verbatim>\<open>x === y\<close> (its negation is \<^verbatim>\<open>!==\<close>): primitives by value,
  arrays and objects by reference.
\<close>

fun strict_eq :: "jsval \<Rightarrow> jsval \<Rightarrow> bool" where
  "strict_eq JUndefined JUndefined = True"
| "strict_eq JNull JNull = True"
| "strict_eq (JBool a) (JBool b) = (a = b)"
| "strict_eq (JNum a) (JNum b) = (a = b)"
| "strict_eq (JStr a) (JStr b) = (a = b)"
| "strict_eq x y = False"

text \<open>
  A read \<^verbatim>\<open>x.k\<close> of a fixed name \<open>k\<close> that no prototype defines (\<^verbatim>\<open>id\<close>, \<^verbatim>\<open>result\<close>,
  \<^verbatim>\<open>error\<close>, \<^verbatim>\<open>message\<close>, \<^verbatim>\<open>code\<close>, \<^verbatim>\<open>_auth\<close>, \<^verbatim>\<open>username\<close>, ...) on a value that is
  neither \<^verbatim>\<open>null\<close> nor \<^verbatim>\<open>undefined\<close> (on those the read throws; the callers below test
  for it first).
\<close>

fun get :: "jsval \<Rightarrow> string \<Rightarrow> jsval" where
  "get (JObj kvs) k = (case map_of kvs k of Some v \<Rightarrow> v | None \<Rightarrow> JUndefined)"
| "get JUndefined k = JUndefined"
| "get JNull k = JUndefined"
| "get (JBool b) k = JUndefined"
| "get (JNum n) k = JUndefined"
| "get (JStr s) k = JUndefined"
| "get (JArr xs) k = JUndefined"

text \<open>\<^verbatim>\<open>'k' in x\<close> for an array or an object \<open>x\<close> and a fixed name no prototype defines.\<close>

fun has_key :: "jsval \<Rightarrow> string \<Rightarrow> bool" where
  "has_key (JObj kvs) k = (case map_of kvs k of Some v \<Rightarrow> True | None \<Rightarrow> False)"
| "has_key JUndefined k = False"
| "has_key JNull k = False"
| "has_key (JBool b) k = False"
| "has_key (JNum n) k = False"
| "has_key (JStr s) k = False"
| "has_key (JArr xs) k = False"

text \<open>\<^verbatim>\<open>users[0]\<close> on a value that is neither \<^verbatim>\<open>null\<close> nor \<^verbatim>\<open>undefined\<close>.\<close>

fun index0 :: "jsval \<Rightarrow> jsval" where
  "index0 (JArr []) = JUndefined"
| "index0 (JArr (x # xs)) = x"
| "index0 (JStr []) = JUndefined"
| "index0 (JStr (c # cs)) = JStr [c]"
| "index0 (JObj kvs) = (case map_of kvs ''0'' of Some v \<Rightarrow> v | None \<Rightarrow> JUndefined)"
| "index0 JUndefined = JUndefined"
| "index0 JNull = JUndefined"
| "index0 (JBool b) = JUndefined"
| "index0 (JNum n) = JUndefined"

subsection \<open>Computed property reads\<close>

text \<open>
  A read \<^verbatim>\<open>obj[key]\<close> with a key that is data (a parameter name from the server's method
  description, the \<^verbatim>\<open>id\<close> of an inbound frame) finds an own property first and then the
  members every plain object inherits.
\<close>

definition object_prototype_names :: "string list" where
  "object_prototype_names =
     [''constructor'', ''__defineGetter__'', ''__defineSetter__'', ''hasOwnProperty'',
      ''__lookupGetter__'', ''__lookupSetter__'', ''isPrototypeOf'', ''propertyIsEnumerable'',
      ''toString'', ''valueOf'', ''__proto__'', ''toLocaleString'']"

datatype 'a lookup = Own 'a | Inherited | Absent

definition read_prop :: "(string \<rightharpoonup> 'a) \<Rightarrow> string \<Rightarrow> 'a lookup" where
  "read_prop own k =
     (case own k of
        Some v \<Rightarrow> Own v
      | None \<Rightarrow> if k \<in> set object_prototype_names then Inherited else Absent)"

subsection \<open>Conversion to string\<close>

text \<open>
  Template literals (\<^verbatim>\<open>`[${id}] <-`\<close>) and property keys (\<^verbatim>\<open>this.requests[id]\<close>) convert
  their operand to a string.
\<close>

definition digit_char :: "nat \<Rightarrow> char" where
  "digit_char d = char_of (48 + d)"

function string_of_nat :: "nat \<Rightarrow> string" where
  "string_of_nat n =
     (if n < 10 then [digit_char n] else string_of_nat (n div 10) @ [digit_char (n mod 10)])"
  by pat_completeness auto
termination
  by (relation "measure id") auto

definition string_of_int :: "int \<Rightarrow> string" where
  "string_of_int i = (if i < 0 then CHR ''-'' # string_of_nat (nat (- i)) else string_of_nat (nat i))"

text \<open>Reading a decimal rendering back (used only to show that distinct ids get distinct keys).\<close>

definition digit_val :: "char \<Rightarrow> nat" where
  "digit_val c = of_char c - 48"

definition nat_of_string :: "string \<Rightarrow> nat" where
  "nat_of_string cs = foldl (\<lambda>a c. 10 * a + digit_val c) 0 cs"

fun join :: "string \<Rightarrow> string list \<Rightarrow> string" where
  "join sep [] = []"
| "join sep [x] = x"
| "join sep (x # y # ys) = x @ sep @ join sep (y # ys)"

text \<open>
  The conversion throws a TypeError on an object with an own property \<^verbatim>\<open>toString\<close> (a
  parsed value is never callable, and the inherited \<^verbatim>\<open>valueOf\<close> returns the object), and
  on an array that holds such an object; \<^verbatim>\<open>null\<close> and \<^verbatim>\<open>undefined\<close> elements of an
  array are rendered as the empty string.
\<close>

fun to_string_throws :: "jsval \<Rightarrow> bool" where
  "to_string_throws (JObj kvs) = (case map_of kvs ''toString'' of Some v \<Rightarrow> True | None \<Rightarrow> False)"
| "to_string_throws (JArr xs) = list_ex to_string_throws xs"
| "to_string_throws JUndefined = False"
| "to_string_throws JNull = False"
| "to_string_throws (JBool b) = False"
| "to_string_throws (JNum n) = False"
| "to_string_throws (JStr s) = False"

fun to_string :: "jsval \<Rightarrow> string" where
  "to_string JUndefined = ''undefined''"
| "to_string JNull = ''null''"
| "to_string (JBool b) = (if b then ''true'' else ''false'')"
| "to_string (JNum n) = string_of_int n"
| "to_string (JStr s) = s"
| "to_string (JArr xs) = join '','' (map (\<lambda>x. if nullish x then [] else to_string x) xs)"
| "to_string (JObj kvs) = ''[object Object]''"

section \<open>The client's state\<close>

text \<open>
  Errors the client raises or rejects with: \<^verbatim>\<open>new JSONRPCError(err)\<close> keeps
  \<^verbatim>\<open>err.message\<close> and \<^verbatim>\<open>err.code\<close>; \<^verbatim>\<open>new Error(msg)\<close> keeps its message; a TypeError is
  what the language throws on a read from \<^verbatim>\<open>undefined\<close>/\<^verbatim>\<open>null\<close>, on a call of a
  non-function and on a failed conversion; \<open>UnhandledError data\<close> is what the event
  emitter throws when \<^verbatim>\<open>emit('error', data)\<close> finds no listener (an error whose context is
  \<open>data\<close>).
\<close>

datatype js_error = JSONRPCError jsval jsval | Error string | TypeError | UnhandledError jsval

datatype outcome = Fulfilled jsval | Rejected js_error

text \<open>
  A callback attached with \<^verbatim>\<open>.then\<close>, together with the promise \<^verbatim>\<open>.then\<close> returned (the
  last argument). The callbacks of the source are listed one by one, each with the
  variables its closure captures:
  \<^item> \<open>Adopt d\<close>: the promise \<open>d\<close> takes the outcome as it is: \<open>d\<close> was resolved with another
    promise and follows it, or \<open>d\<close> is what \<^verbatim>\<open>then\<close>, \<^verbatim>\<open>catch\<close> or \<^verbatim>\<open>finally\<close> returned for
    an argument that is no function;
  \<^item> \<open>Sugar method params d\<close>: \<^verbatim>\<open>() => parent[method](...args)\<close> of
    \<^verbatim>\<open>ChainablePromise.proxy\<close>, for a bound method called with one plain parameter object;
  \<^item> \<open>Init_users username d\<close>, \<open>Init_empty d\<close>, \<open>Init_login username password client_id
    client_secret d\<close>, \<open>Init_token d\<close>: the four arrow functions of \<^verbatim>\<open>init\<close>, in source
    order.
  None of them has a rejection handler.
\<close>

datatype cont =
    Adopt nat
  | Sugar string "(string \<times> jsval) list" nat
  | Init_users jsval nat
  | Init_empty nat
  | Init_login jsval jsval jsval jsval nat
  | Init_token nat

datatype pstate = Pending "cont list" | Settled outcome

type_synonym job = "outcome \<times> cont"

text \<open>
  What \<^verbatim>\<open>defineMethod\<close> computes once per method and the bound closure captures.
\<close>

record bound =
  methodName :: string
  needsAuth :: bool
  requiredParams :: "string list"

record param_def =
  pd_name :: string
  pd_required :: bool

text \<open>
  The fields of a \<^verbatim>\<open>Cortex\<close> object and what the transport, the event emitter and the
  promise machinery hold for it:
  \<^item> \<open>msgId\<close>, \<open>requests\<close> (the own properties of \<^verbatim>\<open>this.requests\<close>; a stored callback
    is the pair of the \<^verbatim>\<open>id\<close> its closure captured and the promise whose
    \<^verbatim>\<open>resolve\<close>/\<^verbatim>\<open>reject\<close> it captured), \<open>auth\<close> (\<^verbatim>\<open>this._auth\<close>);
  \<^item> \<open>socket_closed\<close>: the socket's \<^verbatim>\<open>close\<close> listener has replaced \<^verbatim>\<open>this.call\<close>;
  \<^item> \<open>methods\<close>: the closures \<^verbatim>\<open>defineMethod\<close> installed as \<^verbatim>\<open>this[methodName]\<close>;
  \<^item> \<open>sent\<close>: the objects serialised and handed to \<^verbatim>\<open>this.ws.send\<close>, oldest first (the
    socket is taken to accept every frame);
  \<^item> \<open>listeners\<close>: the event names for which a caller has registered a listener
    (\<^verbatim>\<open>client.on(name, ...)\<close>); the listeners themselves are the callers' functions and
    are taken to return without touching the client;
  \<^item> \<open>emitted\<close>: the events \<^verbatim>\<open>this.emit\<close> delivered (it did not throw), oldest first;
  \<^item> \<open>promises\<close>, \<open>nextp\<close>: every \<^verbatim>\<open>APIResult\<close> promise created so far;
  \<^item> \<open>jobs\<close>: the microtask queue, next job first.
  \<open>msgId\<close> is a natural number: the counter starts at \<open>0\<close> and only grows.
\<close>

record cortex =
  msgId :: nat
  requests :: "string \<rightharpoonup> nat \<times> nat"
  auth :: jsval
  socket_closed :: bool
  methods :: "string \<rightharpoonup> bound"
  sent :: "jsval list"
  listeners :: "string list"
  emitted :: "(string \<times> jsval) list"
  promises :: "nat \<rightharpoonup> pstate"
  nextp :: nat
  jobs :: "job list"

text \<open>The fields as the constructor leaves them, before any method is discovered.\<close>

definition new_Cortex :: cortex where
  "new_Cortex =
     \<lparr>msgId = 0, requests = Map.empty, auth = JUndefined, socket_closed = False,
      methods = Map.empty, sent = [], listeners = [], emitted = [], promises = Map.empty,
      nextp = 0, jobs = []\<rparr>"

subsection \<open>Promises\<close>

text \<open>
  \<open>new_promise\<close> creates a promise in the given state (\<^verbatim>\<open>new this.APIResult(...)\<close>, or
  \<^verbatim>\<open>this.APIResult.reject(e)\<close> when the state is a rejection). \<open>settle\<close> is the promise's
  \<^verbatim>\<open>resolve\<close>/\<^verbatim>\<open>reject\<close> called with a value that is not a promise: the first call wins,
  and every attached callback becomes a job. \<open>promise_then\<close> is \<^verbatim>\<open>p.then(callback)\<close>: it
  returns a new pending promise, and the callback waits on \<open>p\<close>, or becomes a job at once
  when \<open>p\<close> is already settled; it never runs inside \<open>promise_then\<close>.
\<close>

definition new_promise :: "cortex \<Rightarrow> pstate \<Rightarrow> cortex \<times> nat" where
  "new_promise s st =
     (s\<lparr>promises := (promises s)(nextp s \<mapsto> st), nextp := Suc (nextp s)\<rparr>, nextp s)"

definition settle :: "cortex \<Rightarrow> nat \<Rightarrow> outcome \<Rightarrow> cortex" where
  "settle s p out =
     (case promises s p of
        Some (Pending cs) \<Rightarrow>
          s\<lparr>promises := (promises s)(p \<mapsto> Settled out), jobs := jobs s @ map (Pair out) cs\<rparr>
      | Some (Settled done) \<Rightarrow> s
      | None \<Rightarrow> s)"

definition subscribe :: "cortex \<Rightarrow> nat \<Rightarrow> cont \<Rightarrow> cortex" where
  "subscribe s p c =
     (case promises s p of
        Some (Pending cs) \<Rightarrow> s\<lparr>promises := (promises s)(p \<mapsto> Pending (cs @ [c]))\<rparr>
      | Some (Settled out) \<Rightarrow> s\<lparr>jobs := jobs s @ [(out, c)]\<rparr>
      | None \<Rightarrow> s)"

definition promise_then :: "cortex \<Rightarrow> nat \<Rightarrow> (nat \<Rightarrow> cont) \<Rightarrow> cortex \<times> nat" where
  "promise_then s p callback =
     (let (s1, d) = new_promise s (Pending []) in (subscribe s1 p (callback d), d))"

subsection \<open>\<^verbatim>\<open>call\<close> and the socket's \<^verbatim>\<open>close\<close> listener\<close>

text \<open>
  \<^verbatim>\<open>call (method, params = {})\<close>, lines 159-175, and the replacement the \<^verbatim>\<open>close\<close>
  listener installs (lines 75-78), for a \<^verbatim>\<open>method\<close> that is a string, as the bound methods
  pass it. The frame is recorded as the object given to \<^verbatim>\<open>JSON.stringify\<close>.
\<close>

definition call :: "cortex \<Rightarrow> jsval \<Rightarrow> jsval \<Rightarrow> cortex \<times> nat" where
  "call s method params =
     (if socket_closed s then new_promise s (Settled (Rejected (Error ''socket closed'')))
      else
        let id = msgId s;
            msg = JObj [(''jsonrpc'', JStr ''2.0''), (''method'', method),
                        (''params'', if params = JUndefined then JObj [] else params),
                        (''id'', JNum (int id))];
            (s1, p) = new_promise (s\<lparr>msgId := Suc id, sent := sent s @ [msg]\<rparr>) (Pending [])
        in (s1\<lparr>requests := (requests s1)(string_of_nat id \<mapsto> (id, p))\<rparr>, p))"

definition onclose :: "cortex \<Rightarrow> cortex" where
  "onclose s = s\<lparr>socket_closed := True\<rparr>"

text \<open>
  How a run of a handler or callback ends: it returns, or an exception leaves it (the
  event dispatcher of the socket reports it; nothing in the client catches it).
\<close>

datatype completion = Normal | Throw js_error

text \<open>
  The callback \<^verbatim>\<open>call\<close> stores under \<^verbatim>\<open>this.requests[id]\<close> (lines 167-173), applied to
  \<^verbatim>\<open>(err, data)\<close>: it deletes its entry and then takes one of the three \<^verbatim>\<open>return\<close>s of
  lines 170-172 (\<open>callback_outcome\<close>). In the first, \<^verbatim>\<open>new JSONRPCError(err)\<close> runs
  \<^verbatim>\<open>super(err.message)\<close>, which converts a message that is not \<^verbatim>\<open>undefined\<close> to a string:
  when that conversion throws, the callback throws (\<open>Inl\<close>) after the entry is gone and
  the promise is left as it was.
\<close>

definition callback_outcome :: "jsval \<Rightarrow> jsval \<Rightarrow> js_error + outcome" where
  "callback_outcome err data =
     (if truthy err then
        (if to_string_throws (get err ''message'') then Inl TypeError
         else Inr (Rejected (JSONRPCError (get err ''message'') (get err ''code''))))
      else if truthy data then Inr (Fulfilled data)
      else Inr (Rejected (Error ''Invalid JSON-RPC response'')))"

definition request_callback :: "cortex \<Rightarrow> nat \<times> nat \<Rightarrow> jsval \<Rightarrow> jsval \<Rightarrow> cortex \<times> completion" where
  "request_callback s cb err data =
     (let s1 = s\<lparr>requests := (requests s)(string_of_nat (fst cb) := None)\<rparr> in
      case callback_outcome err data of
        Inl e \<Rightarrow> (s1, Throw e)
      | Inr out \<Rightarrow> (settle s1 (snd cb) out, Normal))"

subsection \<open>\<^verbatim>\<open>_onmsg\<close>\<close>

text \<open>
  Line 99 builds the arguments of \<^verbatim>\<open>this._log\<close> before \<^verbatim>\<open>_log\<close> looks at the verbosity:
  \<^verbatim>\<open>`[${id}] <-`\<close> converts the id, and when \<^verbatim>\<open>data.result\<close> is falsy the second argument
  reads \<^verbatim>\<open>data.error.message\<close> and converts it.
\<close>

definition log_args_throw :: "jsval \<Rightarrow> bool" where
  "log_args_throw data =
     (if to_string_throws (get data ''id'') then True
      else if truthy (get data ''result'') then False
      else if nullish (get data ''error'') then True
      else to_string_throws (get (get data ''error'') ''message''))"

text \<open>
  \<^verbatim>\<open>this.requests[id](data.error, data.result)\<close> when the key names no stored callback but
  a member of \<^verbatim>\<open>Object.prototype\<close>: \<^verbatim>\<open>__proto__\<close> is not a function,
  \<^verbatim>\<open>__defineGetter__\<close>/\<^verbatim>\<open>__defineSetter__\<close> reject a second argument that is not callable,
  and the members that take a property key convert their first argument.
\<close>

definition inherited_call_throws :: "string \<Rightarrow> jsval \<Rightarrow> bool" where
  "inherited_call_throws k err =
     (if k \<in> set [''__proto__'', ''__defineGetter__'', ''__defineSetter__''] then True
      else if k \<in> set [''__lookupGetter__'', ''__lookupSetter__'', ''hasOwnProperty'',
                        ''propertyIsEnumerable'']
      then to_string_throws err
      else False)"

fun is_object :: "jsval \<Rightarrow> bool" where
  "is_object (JArr xs) = True"
| "is_object (JObj kvs) = True"
| "is_object JUndefined = False"
| "is_object JNull = False"
| "is_object (JBool b) = False"
| "is_object (JNum n) = False"
| "is_object (JStr s) = False"

fun keys :: "jsval \<Rightarrow> string list" where
  "keys (JObj kvs) = map fst kvs"
| "keys JUndefined = []"
| "keys JNull = []"
| "keys (JBool b) = []"
| "keys (JNum n) = []"
| "keys (JStr s) = []"
| "keys (JArr xs) = []"

text \<open>
  \<^verbatim>\<open>this.emit(k, data)\<close> is the event emitter's (the class extends \<^verbatim>\<open>EventEmitter\<close> of
  \<^verbatim>\<open>events\<close>): it calls the listeners of \<open>k\<close> and returns whether there was one, except
  that an \<^verbatim>\<open>error\<close> event without a listener is thrown as an exception. The loop of lines
  109-111 stops at the first exception.
\<close>

definition emit :: "cortex \<Rightarrow> string \<Rightarrow> jsval \<Rightarrow> cortex \<times> (js_error + bool)" where
  "emit s k data =
     (if k = ''error'' \<and> ''error'' \<notin> set (listeners s) then (s, Inl (UnhandledError data))
      else (s\<lparr>emitted := emitted s @ [(k, data)]\<rparr>, Inr (k \<in> set (listeners s))))"

fun emit_each :: "cortex \<Rightarrow> jsval \<Rightarrow> string list \<Rightarrow> cortex \<times> completion" where
  "emit_each s data [] = (s, Normal)"
| "emit_each s data (k # ks) =
     (case emit s k data of
        (s1, Inl e) \<Rightarrow> (s1, Throw e)
      | (s1, Inr heard) \<Rightarrow> emit_each s1 data ks)"

definition dataKeys :: "jsval \<Rightarrow> string list" where
  "dataKeys data =
     filter (\<lambda>k. k \<noteq> ''sid'' \<and> k \<noteq> ''time'' \<and> isArray (get data k)) (keys data)"

text \<open>
  \<^verbatim>\<open>_onmsg (msg)\<close>, lines 91-115, applied to what \<^verbatim>\<open>safeParse(msg.data)\<close> produced:
  \<open>None\<close> when \<^verbatim>\<open>JSON.parse\<close> threw (\<^verbatim>\<open>safeParse\<close> then returns \<^verbatim>\<open>null\<close>), \<open>Some data\<close>
  otherwise. \<^verbatim>\<open>'id' in data\<close> throws on a primitive. The console output of \<^verbatim>\<open>_warn\<close>,
  \<^verbatim>\<open>_log\<close> and \<^verbatim>\<open>_debug\<close> is not recorded.
\<close>

definition onmsg :: "cortex \<Rightarrow> jsval option \<Rightarrow> cortex \<times> completion" where
  "onmsg s parsed =
     (case parsed of
        None \<Rightarrow> (s, Normal)
      | Some data \<Rightarrow>
          if \<not> truthy data then (s, Normal)
          else if \<not> is_object data then (s, Throw TypeError)
          else if has_key data ''id'' then
            (if log_args_throw data then (s, Throw TypeError)
             else
               (case read_prop (requests s) (to_string (get data ''id'')) of
                  Own cb \<Rightarrow> request_callback s cb (get data ''error'') (get data ''result'')
                | Inherited \<Rightarrow>
                    (s, if inherited_call_throws (to_string (get data ''id'')) (get data ''error'')
                        then Throw TypeError else Normal)
                | Absent \<Rightarrow> (s, Normal)))
          else if has_key data ''sid'' then emit_each s data (dataKeys data)
          else (s, Normal))"

subsection \<open>\<^verbatim>\<open>defineMethod\<close> and the bound methods\<close>

text \<open>
  \<^verbatim>\<open>Object.assign({}, params, {_auth: v})\<close>: the own properties of \<^verbatim>\<open>params\<close> in their
  order, with \<^verbatim>\<open>_auth\<close> overwritten in place when it is there and added last otherwise.
\<close>

fun assign :: "(string \<times> jsval) list \<Rightarrow> string \<Rightarrow> jsval \<Rightarrow> (string \<times> jsval) list" where
  "assign [] k v = [(k, v)]"
| "assign ((k', v') # kvs) k v = (if k' = k then (k, v) # kvs else (k', v') # assign kvs k v)"

text \<open>
  The test \<^verbatim>\<open>params[p] == null\<close> of line 185: a computed read, so a name that
  \<^verbatim>\<open>Object.prototype\<close> defines is found there when \<^verbatim>\<open>params\<close> has no own property of
  that name.
\<close>

definition param_missing :: "(string \<times> jsval) list \<Rightarrow> string \<Rightarrow> bool" where
  "param_missing params p =
     (case read_prop (map_of params) p of
        Own v \<Rightarrow> nullish v
      | Inherited \<Rightarrow> False
      | Absent \<Rightarrow> True)"

text \<open>
  The closure of lines 181-192, for a caller that passes a plain object (or nothing:
  the empty object).
\<close>

definition autofill :: "bound \<Rightarrow> cortex \<Rightarrow> (string \<times> jsval) list \<Rightarrow> (string \<times> jsval) list" where
  "autofill b s params =
     (if needsAuth b \<and> truthy (auth s) \<and> \<not> truthy (get (JObj params) ''_auth'')
      then assign params ''_auth'' (auth s)
      else params)"

definition missingParams :: "bound \<Rightarrow> cortex \<Rightarrow> (string \<times> jsval) list \<Rightarrow> string list" where
  "missingParams b s params = filter (param_missing (autofill b s params)) (requiredParams b)"

definition invoke :: "bound \<Rightarrow> cortex \<Rightarrow> (string \<times> jsval) list \<Rightarrow> cortex \<times> nat" where
  "invoke b s params =
     (if length (missingParams b s params) > 0 then
        new_promise s
          (Settled (Rejected (Error (''Missing required params for '' @ methodName b @ '': '' @
                                     join '', '' (missingParams b s params)))))
      else call s (JStr (methodName b)) (JObj (autofill b s params)))"

text \<open>
  \<^verbatim>\<open>defineMethod (methodName, paramDefs = [])\<close>, lines 176-195. The guard
  \<^verbatim>\<open>if (this[methodName]) return\<close> also sees the members a \<^verbatim>\<open>Cortex\<close> object has apart
  from the bound methods (its fields, the methods of the class and those inherited from
  the event emitter, which is not part of the repository): \<open>member\<close> says whether
  \<^verbatim>\<open>this[methodName]\<close> is truthy by one of them. \<^verbatim>\<open>this.APIResult.proxy(methodName)\<close>
  gives the promises a chain-sugar method of the same name unless their prototype chain
  has a member of that name already (\<open>promise_member\<close> below reads this off the table of
  bound methods).
\<close>

definition bind :: "string \<Rightarrow> param_def list \<Rightarrow> bound" where
  "bind name paramDefs =
     \<lparr>methodName = name,
      needsAuth = list_ex (\<lambda>p. pd_name p = ''_auth'') paramDefs,
      requiredParams = map pd_name (filter pd_required paramDefs)\<rparr>"

definition defineMethod :: "(string \<Rightarrow> bool) \<Rightarrow> cortex \<Rightarrow> string \<Rightarrow> param_def list \<Rightarrow> cortex" where
  "defineMethod member s name paramDefs =
     (if member name then s
      else
        (case methods s name of
           Some b \<Rightarrow> s
         | None \<Rightarrow> s\<lparr>methods := (methods s)(name \<mapsto> bind name paramDefs)\<rparr>))"

text \<open>
  A client after discovery has described the four methods \<^verbatim>\<open>init\<close> uses (no other member
  of the object bears one of these names).
\<close>

definition demo_client :: cortex where
  "demo_client =
     defineMethod (\<lambda>name. False)
       (defineMethod (\<lambda>name. False)
          (defineMethod (\<lambda>name. False)
             (defineMethod (\<lambda>name. False) new_Cortex ''getUserLogin'' [])
             ''logout'' [\<lparr>pd_name = ''username'', pd_required = True\<rparr>])
          ''login'' [\<lparr>pd_name = ''username'', pd_required = True\<rparr>,
                     \<lparr>pd_name = ''password'', pd_required = True\<rparr>,
                     \<lparr>pd_name = ''client_id'', pd_required = False\<rparr>,
                     \<lparr>pd_name = ''client_secret'', pd_required = False\<rparr>])
       ''authorize'' [\<lparr>pd_name = ''client_id'', pd_required = False\<rparr>,
                      \<lparr>pd_name = ''client_secret'', pd_required = False\<rparr>,
                      \<lparr>pd_name = ''debit'', pd_required = False\<rparr>]"

subsection \<open>Chain sugar, \<^verbatim>\<open>init\<close> and the microtask queue\<close>

text \<open>
  The method \<^verbatim>\<open>ChainablePromise.proxy\<close> puts on the prototype (lines 34-36), invoked on
  the promise \<open>p\<close>: \<^verbatim>\<open>this.then(() => parent[method](...args))\<close>.
\<close>

definition proxy_body :: "cortex \<Rightarrow> nat \<Rightarrow> string \<Rightarrow> (string \<times> jsval) list \<Rightarrow> cortex \<times> nat" where
  "proxy_body s p method params = promise_then s p (Sugar method params)"

text \<open>
  What the name \<open>method\<close> denotes on an \<^verbatim>\<open>APIResult\<close> promise. \<^verbatim>\<open>proxy\<close> installs nothing
  under a name the prototype chain already answers with a truthy value (line 32), so:
  \<^item> \<^verbatim>\<open>then\<close>, \<^verbatim>\<open>catch\<close> and \<^verbatim>\<open>finally\<close> stay the methods of \<^verbatim>\<open>Promise.prototype\<close>, also
    when \<^verbatim>\<open>defineMethod\<close> has bound a method of that name on the client;
  \<^item> the names of \<^verbatim>\<open>Object.prototype\<close> stay its members (none returns a promise);
  \<^item> \<^verbatim>\<open>init\<close>, \<^verbatim>\<open>close\<close>, \<^verbatim>\<open>call\<close> and \<^verbatim>\<open>defineMethod\<close> are the proxies the loop of lines
    40-46 installed for the methods of the class when the client was constructed;
  \<^item> any other name is a proxy exactly when \<^verbatim>\<open>defineMethod\<close> bound it (line 194), and
    \<^verbatim>\<open>undefined\<close> otherwise.
\<close>

datatype member = Promise_method | Object_member | Class_proxy | Bound_proxy | No_member

definition class_method_names :: "string list" where
  "class_method_names = [''init'', ''close'', ''call'', ''defineMethod'']"

definition promise_member :: "cortex \<Rightarrow> string \<Rightarrow> member" where
  "promise_member s method =
     (if method \<in> set [''then'', ''catch'', ''finally''] then Promise_method
      else if method \<in> set object_prototype_names then Object_member
      else if method \<in> set class_method_names then Class_proxy
      else (case methods s method of
              Some b \<Rightarrow> Bound_proxy
            | None \<Rightarrow> No_member))"

text \<open>
  The expression \<^verbatim>\<open>p.method(params)\<close> with a plain parameter object, as the header
  comment's \<^verbatim>\<open>client.auth().createSession().subscribe()\<close> chains it:
  \<^item> a proxy of a bound method runs \<open>proxy_body\<close> and returns the derived promise;
  \<^item> \<^verbatim>\<open>then\<close>, \<^verbatim>\<open>catch\<close> and \<^verbatim>\<open>finally\<close> ignore an argument that is not a function: the
    promise they return takes the outcome of \<open>p\<close> as it is (the callback \<open>Adopt\<close>);
  \<^item> where the promise has no member of that name the call throws a \<^verbatim>\<open>TypeError\<close>;
  \<^item> a member of \<^verbatim>\<open>Object.prototype\<close> and a proxy of a method of the class (which takes
    other arguments than a parameter object) are no chain step of a bound method:
    \<open>Not_a_step\<close>, with nothing said about what the call does.
\<close>

datatype chained = Chained cortex nat | Not_a_function | Not_a_step

definition sugar :: "cortex \<Rightarrow> nat \<Rightarrow> string \<Rightarrow> (string \<times> jsval) list \<Rightarrow> chained" where
  "sugar s p method params =
     (case promise_member s method of
        Bound_proxy \<Rightarrow> (let (s1, d) = proxy_body s p method params in Chained s1 d)
      | Promise_method \<Rightarrow> (let (s1, d) = promise_then s p Adopt in Chained s1 d)
      | No_member \<Rightarrow> Not_a_function
      | Object_member \<Rightarrow> Not_a_step
      | Class_proxy \<Rightarrow> Not_a_step)"

text \<open>
  A promise \<open>d\<close> resolved with the promise \<open>r\<close> a callback returned follows \<open>r\<close>.
\<close>

definition resolve_with :: "cortex \<Rightarrow> nat \<Rightarrow> nat \<Rightarrow> cortex" where
  "resolve_with s d r = subscribe s r (Adopt d)"

text \<open>
  One job of the microtask queue: the callback \<open>c\<close> of a promise that settled with
  \<open>out\<close>. A rejection passes to the derived promise untouched (no callback has a
  rejection handler); a fulfilment runs the callback's body, and what the body returns
  or throws settles the derived promise.
\<close>

fun run_callback :: "cortex \<Rightarrow> jsval \<Rightarrow> cont \<Rightarrow> cortex" where
  "run_callback s v (Adopt d) = settle s d (Fulfilled v)"
| "run_callback s v (Sugar method params d) =
     (case methods s method of
        None \<Rightarrow> settle s d (Rejected TypeError)
      | Some b \<Rightarrow> (let (s1, r) = invoke b s params in resolve_with s1 d r))"
| "run_callback s users (Init_users username d) =
     (if nullish users then settle s d (Rejected TypeError)
      else if truthy (index0 users) \<and> \<not> strict_eq (index0 users) username then
        (case methods s ''logout'' of
           None \<Rightarrow> settle s d (Rejected TypeError)
         | Some b \<Rightarrow>
             (let (s1, r) = invoke b s [(''username'', index0 users)];
                  (s2, r') = promise_then s1 r Init_empty
              in resolve_with s2 d r'))
      else settle s d (Fulfilled users))"
| "run_callback s v (Init_empty d) = settle s d (Fulfilled (JArr []))"
| "run_callback s users (Init_login username password client_id client_secret d) =
     (if nullish users then settle s d (Rejected TypeError)
      else if \<not> truthy (index0 users) \<and> truthy username \<and> truthy password then
        (case methods s ''login'' of
           None \<Rightarrow> settle s d (Rejected TypeError)
         | Some b \<Rightarrow>
             (let (s1, r) = invoke b s [(''username'', username), (''password'', password),
                                        (''client_id'', client_id),
                                        (''client_secret'', client_secret)]
              in resolve_with s1 d r))
      else settle s d (Fulfilled JUndefined))"
| "run_callback s v (Init_token d) =
     (if nullish v then settle s d (Rejected TypeError)
      else settle (s\<lparr>auth := get v ''_auth''\<rparr>) d (Fulfilled JUndefined))"

fun derived :: "cont \<Rightarrow> nat" where
  "derived (Adopt d) = d"
| "derived (Sugar method params d) = d"
| "derived (Init_users username d) = d"
| "derived (Init_empty d) = d"
| "derived (Init_login username password client_id client_secret d) = d"
| "derived (Init_token d) = d"

fun run_job :: "cortex \<Rightarrow> job \<Rightarrow> cortex" where
  "run_job s (Fulfilled v, c) = run_callback s v c"
| "run_job s (Rejected e, c) = settle s (derived c) (Rejected e)"

text \<open>
  After the code of an event has run, the jobs run until the queue is empty, each job
  possibly adding more. \<open>drain\<close> returns \<open>None\<close> when that never ends.
\<close>

partial_function (option) drain :: "cortex \<Rightarrow> cortex option" where
  "drain s =
     (case jobs s of
        [] \<Rightarrow> Some s
      | j # js \<Rightarrow> drain (run_job (s\<lparr>jobs := js\<rparr>) j))"

text \<open>
  \<^verbatim>\<open>p.then(c1).then(c2)...\<close>: each callback is attached, in the same turn, to the promise
  the previous \<^verbatim>\<open>then\<close> returned.
\<close>

fun then_chain :: "cortex \<Rightarrow> nat \<Rightarrow> (nat \<Rightarrow> cont) list \<Rightarrow> cortex \<times> nat" where
  "then_chain s p [] = (s, p)"
| "then_chain s p (c # cs) = (let (s1, d) = promise_then s p c in then_chain s1 d cs)"

text \<open>
  A chain written as one expression, \<^verbatim>\<open>p.m1(a1).m2(a2)...\<close>: each method is invoked, in
  the same turn, on the promise the previous one returned; the expression stops at the
  first call that throws or returns no chain promise.
\<close>

fun sugar_chain :: "cortex \<Rightarrow> nat \<Rightarrow> (string \<times> (string \<times> jsval) list) list \<Rightarrow> chained" where
  "sugar_chain s p [] = Chained s p"
| "sugar_chain s p ((method, params) # rest) =
     (case sugar s p method params of
        Chained s1 d \<Rightarrow> sugar_chain s1 d rest
      | Not_a_function \<Rightarrow> Not_a_function
      | Not_a_step \<Rightarrow> Not_a_step)"

text \<open>
  \<^verbatim>\<open>init ({username, password, client_id, client_secret, debit} = {})\<close>, lines 125-152,
  for a caller that passes a plain object. \<^verbatim>\<open>this.getUserLogin\<close> is a bound method or
  \<^verbatim>\<open>undefined\<close> (calling it throws). \<^verbatim>\<open>authorize\<close> is no name of the promise prototype or of
  the class, so the promise has an \<^verbatim>\<open>authorize\<close> method, the proxy, exactly when
  \<^verbatim>\<open>defineMethod\<close> bound \<^verbatim>\<open>authorize\<close>. The result is the exception thrown or the promise
  returned.
\<close>

definition init :: "cortex \<Rightarrow> (string \<times> jsval) list \<Rightarrow> cortex \<times> (js_error + nat)" where
  "init s creds =
     (let username = get (JObj creds) ''username'';
          password = get (JObj creds) ''password'';
          client_id = get (JObj creds) ''client_id'';
          client_secret = get (JObj creds) ''client_secret'';
          debit = get (JObj creds) ''debit''
      in
        (case methods s ''getUserLogin'' of
           None \<Rightarrow> (s, Inl TypeError)
         | Some b \<Rightarrow>
             (let (s0, p0) = invoke b s [];
                  (s1, p1) = promise_then s0 p0 (Init_users username);
                  (s2, p2) = promise_then s1 p1 (Init_login username password client_id client_secret)
              in
                (case methods s ''authorize'' of
                   None \<Rightarrow> (s2, Inl TypeError)
                 | Some a \<Rightarrow>
                     (let (s3, p3) = proxy_body s2 p2 ''authorize''
                                       [(''client_id'', client_id),
                                        (''client_secret'', client_secret), (''debit'', debit)];
                          (s4, p4) = promise_then s3 p3 Init_token
                      in (s4, Inr p4))))))"

section \<open>Properties\<close>

subsection \<open>Request keys\<close>

declare string_of_nat.simps [simp del]

lemma string_of_nat_0: "string_of_nat 0 = ''0''"
  by code_simp

lemma string_of_nat_1: "string_of_nat (Suc 0) = ''1''"
  by code_simp

lemma string_of_nat_2: "string_of_nat (Suc (Suc 0)) = ''2''"
  by code_simp

lemma digit_val_char: "d < 10 \<Longrightarrow> digit_val (digit_char d) = d"
  by (simp add: digit_val_def digit_char_def)

lemma nat_of_string_of_nat: "nat_of_string (string_of_nat n) = n"
proof (induction n rule: string_of_nat.induct)
  case (1 n)
  show ?case
  proof (cases "n < 10")
    case True
    then show ?thesis
      by (subst string_of_nat.simps) (simp add: nat_of_string_def digit_val_char)
  next
    case False
    with 1 have "nat_of_string (string_of_nat (n div 10)) = n div 10"
      by simp
    with False show ?thesis
      by (subst string_of_nat.simps) (simp add: nat_of_string_def digit_val_char)
  qed
qed

lemma string_of_nat_inj: "string_of_nat m = string_of_nat n \<Longrightarrow> m = n"
  by (metis nat_of_string_of_nat)

lemma string_of_nat_eq_iff: "string_of_nat m = string_of_nat n \<longleftrightarrow> m = n"
  using string_of_nat_inj by auto

lemma string_of_int_nat: "string_of_int (int n) = string_of_nat n"
  by (simp add: string_of_int_def)

subsection \<open>Unfolding \<^verbatim>\<open>call\<close>, the bound methods and \<^verbatim>\<open>_onmsg\<close>\<close>

lemma call_open:
  "\<not> socket_closed s \<Longrightarrow>
   call s method params =
     (s\<lparr>msgId := Suc (msgId s),
        sent := sent s @ [JObj [(''jsonrpc'', JStr ''2.0''), (''method'', method),
                                 (''params'', if params = JUndefined then JObj [] else params),
                                 (''id'', JNum (int (msgId s)))]],
        promises := (promises s)(nextp s \<mapsto> Pending []),
        nextp := Suc (nextp s),
        requests := (requests s)(string_of_nat (msgId s) \<mapsto> (msgId s, nextp s))\<rparr>,
      nextp s)"
  by (simp add: call_def new_promise_def Let_def)

lemma invoke_missing:
  "missingParams b s params \<noteq> [] \<Longrightarrow>
   invoke b s params =
     new_promise s
       (Settled (Rejected (Error (''Missing required params for '' @ methodName b @ '': '' @
                                  join '', '' (missingParams b s params)))))"
  by (simp add: invoke_def)

lemma invoke_complete:
  "missingParams b s params = [] \<Longrightarrow>
   invoke b s params = call s (JStr (methodName b)) (JObj (autofill b s params))"
  by (simp add: invoke_def)

lemma map_of_assign: "map_of (assign kvs k v) = (map_of kvs)(k \<mapsto> v)"
  by (induction kvs k v rule: assign.induct) auto

lemma assign_absent: "map_of kvs k = None \<Longrightarrow> assign kvs k v = kvs @ [(k, v)]"
  by (induction kvs k v rule: assign.induct) (auto split: if_splits)

lemma onmsg_response:
  assumes "get f ''id'' = JNum (int n)"
  shows "onmsg s (Some f) =
    (if log_args_throw f then (s, Throw TypeError)
     else
       (case read_prop (requests s) (string_of_nat n) of
          Own cb \<Rightarrow> request_callback s cb (get f ''error'') (get f ''result'')
        | Inherited \<Rightarrow>
            (s, if inherited_call_throws (string_of_nat n) (get f ''error'')
                then Throw TypeError else Normal)
        | Absent \<Rightarrow> (s, Normal)))"
  using assms by (cases f) (auto simp: onmsg_def string_of_int_nat split: option.splits)

subsection \<open>Connection closure\<close>

text \<open>
  C1 (fails on the code). The claim: when the connection closes, every request still
  pending is rejected with a "connection closed" error. The \<^verbatim>\<open>close\<close> listener of lines
  75-78 only replaces \<^verbatim>\<open>this.call\<close>: it touches neither the table of pending requests nor
  any promise, and it queues no job. Here a call is in flight (id \<open>0\<close>, promise \<open>0\<close>) when
  the socket closes: afterwards its promise is still pending and its callback is still
  in the table, while only a later call is rejected with \<^verbatim>\<open>socket closed\<close>.
\<close>

theorem close_leaves_pending_call_unsettled:
  "promises (onclose (fst (call new_Cortex (JStr ''getUserLogin'') (JObj [])))) 0
     = Some (Pending [])
   \<and> requests (onclose (fst (call new_Cortex (JStr ''getUserLogin'') (JObj [])))) ''0''
     = Some (0, 0)
   \<and> jobs (onclose (fst (call new_Cortex (JStr ''getUserLogin'') (JObj [])))) = []
   \<and> promises (fst (call (onclose (fst (call new_Cortex (JStr ''getUserLogin'') (JObj []))))
                      (JStr ''getUserLogin'') (JObj []))) (Suc 0)
     = Some (Settled (Rejected (Error ''socket closed'')))"
  by (simp add: onclose_def call_def new_Cortex_def new_promise_def string_of_nat_0)

subsection \<open>Responses without a usable payload\<close>

text \<open>
  C6 (fails on the code). The claim: a response that matches a pending id and has neither
  a result nor an error rejects that call with a malformed-response error. The stored
  callback would do so (\<open>callback_outcome\<close> on two \<^verbatim>\<open>undefined\<close>s is the rejection with
  \<^verbatim>\<open>Invalid JSON-RPC response\<close>), but \<^verbatim>\<open>_onmsg\<close> never calls it: line 99 reads
  \<^verbatim>\<open>data.error.message\<close> first, which throws on the absent \<^verbatim>\<open>error\<close>. The call with id
  \<open>0\<close> stays pending.
\<close>

theorem empty_response_leaves_call_pending:
  "onmsg (fst (call new_Cortex (JStr ''getUserLogin'') (JObj []))) (Some (JObj [(''id'', JNum 0)]))
     = (fst (call new_Cortex (JStr ''getUserLogin'') (JObj [])), Throw TypeError)
   \<and> promises (fst (call new_Cortex (JStr ''getUserLogin'') (JObj []))) 0 = Some (Pending [])
   \<and> requests (fst (call new_Cortex (JStr ''getUserLogin'') (JObj []))) ''0'' = Some (0, 0)
   \<and> callback_outcome JUndefined JUndefined
     = Inr (Rejected (Error ''Invalid JSON-RPC response''))"
  by (simp add: onmsg_def log_args_throw_def call_def new_Cortex_def new_promise_def
      string_of_nat_0 callback_outcome_def)

text \<open>
  C9. A response whose id names a pending request, whose \<^verbatim>\<open>result\<close> is present but falsy
  and which has no \<^verbatim>\<open>error\<close> field makes \<^verbatim>\<open>_onmsg\<close> throw a TypeError (the read of
  \<^verbatim>\<open>data.error.message\<close> on line 99) and leaves the whole state as it was: the request
  stays in the table and its promise is not settled, so the call is not resolved with
  that result.
\<close>

theorem falsy_result_never_settles:
  assumes "map_of kvs ''id'' = Some idv"
    and "requests s (to_string idv) = Some cb"
    and "map_of kvs ''result'' = Some r"
    and "\<not> truthy r"
    and "map_of kvs ''error'' = None"
  shows "onmsg s (Some (JObj kvs)) = (s, Throw TypeError)"
  using assms by (simp add: onmsg_def log_args_throw_def)

theorem falsy_result_never_settles_witness:
  "onmsg (fst (call new_Cortex (JStr ''getUserLogin'') (JObj [])))
      (Some (JObj [(''id'', JNum 0), (''result'', JNum 0)]))
     = (fst (call new_Cortex (JStr ''getUserLogin'') (JObj [])), Throw TypeError)
   \<and> requests (fst (call new_Cortex (JStr ''getUserLogin'') (JObj []))) ''0'' = Some (0, 0)
   \<and> promises (fst (call new_Cortex (JStr ''getUserLogin'') (JObj []))) 0 = Some (Pending [])"
  using falsy_result_never_settles [of "[(''id'', JNum 0), (''result'', JNum 0)]" "JNum 0"
      "fst (call new_Cortex (JStr ''getUserLogin'') (JObj []))" "(0, 0)" "JNum 0"]
  by (simp add: call_def new_Cortex_def new_promise_def string_of_int_def string_of_nat_0)

subsection \<open>Stream frames\<close>





subsection \<open>Correlation of responses\<close>

lemma deliver_registered:
  assumes "get f ''id'' = JNum (int n)"
    and "requests s (string_of_nat n) = Some (n, p)"
    and "promises s p = Some (Pending [])"
    and "\<not> log_args_throw f"
    and "callback_outcome (get f ''error'') (get f ''result'') = Inr out"
  shows "onmsg s (Some f) =
           (s\<lparr>requests := (requests s)(string_of_nat n := None),
              promises := (promises s)(p \<mapsto> Settled out)\<rparr>, Normal)"
  using assms(2-5)
  by (simp add: onmsg_response [OF assms(1)] read_prop_def request_callback_def settle_def)

text \<open>
  What the code does for responses with a truthy result and no error: two calls made
  one after the other on an open connection get the ids \<open>msgId s\<close> and \<open>msgId s + 1\<close> and
  two different promises, and when the response \<open>f2\<close> of the second is delivered before
  the response \<open>f1\<close> of the first, each promise is fulfilled with the result of the frame
  bearing the id of its call.
\<close>

lemma truthy_results_correlate_by_id:
  assumes "\<not> socket_closed s"
    and "call s m1 a1 = (s1, p1)"
    and "call s1 m2 a2 = (s2, p2)"
    and "get f1 ''id'' = JNum (int (msgId s))"
    and "get f2 ''id'' = JNum (int (Suc (msgId s)))"
    and "truthy (get f1 ''result'')" and "\<not> truthy (get f1 ''error'')"
    and "truthy (get f2 ''result'')" and "\<not> truthy (get f2 ''error'')"
  shows "p1 \<noteq> p2"
    and "promises (fst (onmsg (fst (onmsg s2 (Some f2))) (Some f1))) p1 =
           Some (Settled (Fulfilled (get f1 ''result'')))"
    and "promises (fst (onmsg (fst (onmsg s2 (Some f2))) (Some f1))) p2 =
           Some (Settled (Fulfilled (get f2 ''result'')))"
proof -
  define k1 where "k1 = string_of_nat (msgId s)"
  define k2 where "k2 = string_of_nat (Suc (msgId s))"
  have k: "k1 \<noteq> k2"
    by (simp add: k1_def k2_def string_of_nat_eq_iff)
  have s1: "s1 = fst (call s m1 a1)" and p1': "p1 = snd (call s m1 a1)"
    using assms(2) by simp_all
  have p1: "p1 = nextp s"
    using assms(1) p1' by (simp add: call_open)
  have o1: "\<not> socket_closed s1" and n1: "nextp s1 = Suc (nextp s)" and i1: "msgId s1 = Suc (msgId s)"
    and r1: "requests s1 k1 = Some (msgId s, p1)" and q1: "promises s1 p1 = Some (Pending [])"
    using assms(1) by (simp_all add: s1 p1 k1_def call_open)
  have s2: "s2 = fst (call s1 m2 a2)" and p2': "p2 = snd (call s1 m2 a2)"
    using assms(3) by simp_all
  have p2: "p2 = Suc (nextp s)"
    using o1 p2' n1 by (simp add: call_open)
  show ne: "p1 \<noteq> p2"
    by (simp add: p1 p2)
  have r21: "requests s2 k1 = Some (msgId s, p1)" and r22: "requests s2 k2 = Some (Suc (msgId s), p2)"
    and q21: "promises s2 p1 = Some (Pending [])" and q22: "promises s2 p2 = Some (Pending [])"
    using o1 r1 q1 k ne n1 i1 by (simp_all add: s2 p2 k2_def call_open)
  have g1: "\<not> log_args_throw f1"
    "callback_outcome (get f1 ''error'') (get f1 ''result'') = Inr (Fulfilled (get f1 ''result''))"
    using assms(4,6,7) by (simp_all add: log_args_throw_def callback_outcome_def)
  have g2: "\<not> log_args_throw f2"
    "callback_outcome (get f2 ''error'') (get f2 ''result'') = Inr (Fulfilled (get f2 ''result''))"
    using assms(5,8,9) by (simp_all add: log_args_throw_def callback_outcome_def)
  define t where "t = s2\<lparr>requests := (requests s2)(k2 := None),
                          promises := (promises s2)(p2 \<mapsto> Settled (Fulfilled (get f2 ''result'')))\<rparr>"
  have d2: "onmsg s2 (Some f2) = (t, Normal)"
    using deliver_registered [OF assms(5) r22 [unfolded k2_def] q22 g2] by (simp add: t_def k2_def)
  have rt: "requests t k1 = Some (msgId s, p1)" and qt: "promises t p1 = Some (Pending [])"
    using r21 q21 k ne by (simp_all add: t_def)
  have d1: "onmsg t (Some f1) =
              (t\<lparr>requests := (requests t)(k1 := None),
                 promises := (promises t)(p1 \<mapsto> Settled (Fulfilled (get f1 ''result'')))\<rparr>, Normal)"
    using deliver_registered [OF assms(4) rt [unfolded k1_def] qt g1] by (simp add: k1_def)
  show "promises (fst (onmsg (fst (onmsg s2 (Some f2))) (Some f1))) p1 =
           Some (Settled (Fulfilled (get f1 ''result'')))"
    by (simp add: d2 d1)
  show "promises (fst (onmsg (fst (onmsg s2 (Some f2))) (Some f1))) p2 =
           Some (Settled (Fulfilled (get f2 ''result'')))"
    unfolding d2 fst_conv d1 using ne by (simp add: t_def)
qed

text \<open>
  C2 (fails on the code). The claim: of two calls in flight with the ids \<open>N\<close> and \<open>N+1\<close>,
  answered in the order \<open>N+1\<close>, \<open>N\<close>, each is settled with the payload of the response
  bearing its id. Here the calls \<open>0\<close> and \<open>1\<close> of a new client are answered with
  \<^verbatim>\<open>{"id":1,"result":0}\<close> and then \<^verbatim>\<open>{"id":0,"result":"first"}\<close>. The call \<open>0\<close> is fulfilled
  with \<^verbatim>\<open>"first"\<close>, but the call \<open>1\<close> is not settled with its payload \<open>0\<close>: line 99 reads
  \<^verbatim>\<open>data.error.message\<close> for a falsy result, \<^verbatim>\<open>_onmsg\<close> throws before looking up the
  callback, and the call stays pending with its entry in the table.
\<close>

theorem falsy_result_breaks_correlation:
  "onmsg (fst (call (fst (call new_Cortex (JStr ''getUserLogin'') (JObj [])))
                 (JStr ''queryHeadsets'') (JObj [])))
      (Some (JObj [(''id'', JNum 1), (''result'', JNum 0)]))
     = (fst (call (fst (call new_Cortex (JStr ''getUserLogin'') (JObj [])))
               (JStr ''queryHeadsets'') (JObj [])), Throw TypeError)
   \<and> snd (onmsg (fst (call (fst (call new_Cortex (JStr ''getUserLogin'') (JObj [])))
                       (JStr ''queryHeadsets'') (JObj [])))
            (Some (JObj [(''id'', JNum 0), (''result'', JStr ''first'')]))) = Normal
   \<and> promises
       (fst (onmsg (fst (call (fst (call new_Cortex (JStr ''getUserLogin'') (JObj [])))
                          (JStr ''queryHeadsets'') (JObj [])))
               (Some (JObj [(''id'', JNum 0), (''result'', JStr ''first'')])))) 0
     = Some (Settled (Fulfilled (JStr ''first'')))
   \<and> promises
       (fst (onmsg (fst (call (fst (call new_Cortex (JStr ''getUserLogin'') (JObj [])))
                          (JStr ''queryHeadsets'') (JObj [])))
               (Some (JObj [(''id'', JNum 0), (''result'', JStr ''first'')])))) (Suc 0)
     = Some (Pending [])
   \<and> requests
       (fst (onmsg (fst (call (fst (call new_Cortex (JStr ''getUserLogin'') (JObj [])))
                          (JStr ''queryHeadsets'') (JObj [])))
               (Some (JObj [(''id'', JNum 0), (''result'', JStr ''first'')])))) ''1''
     = Some (Suc 0, Suc 0)"
  by (simp add: onmsg_def log_args_throw_def call_def new_Cortex_def new_promise_def
      read_prop_def request_callback_def callback_outcome_def settle_def
      string_of_int_def string_of_nat_0 string_of_nat_1)

subsection \<open>Validation of required parameters\<close>

text \<open>
  What the validation of lines 185-190 does for a required name that \<^verbatim>\<open>Object.prototype\<close>
  does not define: when the parameter object has no entry for it after the auto-fill,
  the call is rejected with the error that lists the missing names, and nothing is sent.
\<close>

lemma absent_required_param_rejected:
  assumes "p \<in> set (requiredParams b)"
    and "map_of (autofill b s params) p = None"
    and "p \<notin> set object_prototype_names"
  shows "invoke b s params =
           new_promise s
             (Settled (Rejected (Error (''Missing required params for '' @ methodName b @ '': '' @
                join '', '' (missingParams b s params)))))
         \<and> p \<in> set (missingParams b s params)
         \<and> sent (fst (invoke b s params)) = sent s"
proof -
  have "param_missing (autofill b s params) p"
    using assms(2,3) by (simp add: param_missing_def read_prop_def)
  with assms(1) have mem: "p \<in> set (missingParams b s params)"
    by (simp add: missingParams_def)
  then have "missingParams b s params \<noteq> []"
    by auto
  then show ?thesis
    using mem by (simp add: invoke_missing new_promise_def)
qed

text \<open>
  C3 (fails on the code). The claim: whenever a required parameter name has no entry in
  the caller's parameter object after the auto-fill, the call fails locally and no frame
  is sent. Line 185 tests \<^verbatim>\<open>params[p] == null\<close>, and for a required name that every object
  inherits (\<^verbatim>\<open>toString\<close>, \<^verbatim>\<open>constructor\<close>, ...) the read finds the inherited member: the
  name is not reported, and the frame is sent without it. A method \<^verbatim>\<open>updateSession\<close>
  whose one required parameter is named \<^verbatim>\<open>toString\<close>, called with \<^verbatim>\<open>{}\<close>, sends; the same
  method with the required parameter \<^verbatim>\<open>session\<close> is rejected.
\<close>

theorem inherited_name_passes_validation:
  "invoke (bind ''updateSession'' [\<lparr>pd_name = ''toString'', pd_required = True\<rparr>]) new_Cortex []
     = call new_Cortex (JStr ''updateSession'') (JObj [])
   \<and> sent (fst (invoke (bind ''updateSession'' [\<lparr>pd_name = ''toString'', pd_required = True\<rparr>])
                  new_Cortex []))
     = [JObj [(''jsonrpc'', JStr ''2.0''), (''method'', JStr ''updateSession''),
              (''params'', JObj []), (''id'', JNum 0)]]
   \<and> invoke (bind ''updateSession'' [\<lparr>pd_name = ''session'', pd_required = True\<rparr>]) new_Cortex []
     = new_promise new_Cortex
         (Settled (Rejected (Error ''Missing required params for updateSession: session'')))"
  by (simp add: invoke_def missingParams_def autofill_def bind_def param_missing_def read_prop_def
      object_prototype_names_def call_def new_Cortex_def new_promise_def)

text \<open>
  C10 (amended). A required parameter supplied as \<^verbatim>\<open>null\<close> is reported missing: the call
  is rejected with the validation error, whose list of missing names contains it, and no
  frame is sent. The exception is the parameter \<^verbatim>\<open>_auth\<close> while a token is stored: the
  auto-fill of lines 182-184 runs first and replaces a \<^verbatim>\<open>null\<close> \<^verbatim>\<open>_auth\<close> by the token.
\<close>

theorem null_required_param_rejected:
  assumes "pd \<in> set paramDefs"
    and "pd_required pd"
    and "map_of params (pd_name pd) = Some JNull"
    and "\<not> (pd_name pd = ''_auth'' \<and> truthy (auth s))"
  shows "invoke (bind name paramDefs) s params =
           new_promise s
             (Settled (Rejected (Error (''Missing required params for '' @ name @ '': '' @
                join '', '' (missingParams (bind name paramDefs) s params)))))
         \<and> pd_name pd \<in> set (missingParams (bind name paramDefs) s params)
         \<and> sent (fst (invoke (bind name paramDefs) s params)) = sent s"
proof -
  let ?b = "bind name paramDefs"
  have req: "pd_name pd \<in> set (requiredParams ?b)"
    using assms(1,2) by (auto simp: bind_def)
  have "map_of (autofill ?b s params) (pd_name pd) = Some JNull"
    using assms(3,4) by (auto simp: autofill_def map_of_assign)
  then have "param_missing (autofill ?b s params) (pd_name pd)"
    by (simp add: param_missing_def read_prop_def)
  with req have mem: "pd_name pd \<in> set (missingParams ?b s params)"
    by (simp add: missingParams_def)
  then have "missingParams ?b s params \<noteq> []"
    by auto
  then have "invoke ?b s params =
      new_promise s
        (Settled (Rejected (Error (''Missing required params for '' @ methodName ?b @ '': '' @
                                   join '', '' (missingParams ?b s params)))))"
    by (rule invoke_missing)
  moreover have "methodName ?b = name"
    by (simp add: bind_def)
  ultimately show ?thesis
    using mem by (simp add: new_promise_def)
qed

theorem null_required_param_rejected_witness:
  "invoke (bind ''updateSession'' [\<lparr>pd_name = ''session'', pd_required = True\<rparr>]) new_Cortex
       [(''session'', JNull)]
     = new_promise new_Cortex
         (Settled (Rejected (Error ''Missing required params for updateSession: session'')))
   \<and> sent (fst (invoke (bind ''updateSession'' [\<lparr>pd_name = ''session'', pd_required = True\<rparr>])
               new_Cortex [(''session'', JNull)])) = []"
  using null_required_param_rejected
    [of "\<lparr>pd_name = ''session'', pd_required = True\<rparr>"
        "[\<lparr>pd_name = ''session'', pd_required = True\<rparr>]" "[(''session'', JNull)]" new_Cortex
        "''updateSession''"]
  by (simp add: missingParams_def autofill_def bind_def param_missing_def read_prop_def
      new_Cortex_def new_promise_def)

text \<open>
  The claim as stated fails for a required \<^verbatim>\<open>_auth\<close>: with the token \<^verbatim>\<open>tok\<close> stored, the
  call \<^verbatim>\<open>queryHeadsets({_auth: null})\<close> is not rejected; it is sent with the token.
\<close>

theorem null_auth_is_autofilled:
  "sent (fst (invoke (bind ''queryHeadsets'' [\<lparr>pd_name = ''_auth'', pd_required = True\<rparr>])
                (new_Cortex\<lparr>auth := JStr ''tok''\<rparr>) [(''_auth'', JNull)]))
     = [JObj [(''jsonrpc'', JStr ''2.0''), (''method'', JStr ''queryHeadsets''),
              (''params'', JObj [(''_auth'', JStr ''tok'')]), (''id'', JNum 0)]]"
  by (simp add: invoke_def missingParams_def autofill_def bind_def param_missing_def read_prop_def
      call_def new_Cortex_def new_promise_def)

subsection \<open>Auto-fill of the token\<close>

lemma assign_present: "map_of kvs k = Some v \<Longrightarrow> map fst (assign kvs k v') = map fst kvs"
  by (induction kvs k v' rule: assign.induct) (auto split: if_splits)

text \<open>
  C4 (amended). A method is auth-required exactly when one of its discovered parameters
  is named \<^verbatim>\<open>_auth\<close>. With no required parameter missing after the auto-fill, a bound
  method returns what \<^verbatim>\<open>call\<close> returns for its name and
  \<^item> the caller's parameters followed by \<^verbatim>\<open>_auth\<close> set to the stored token, when the
    method is auth-required, a truthy token is stored and the caller gave no \<^verbatim>\<open>_auth\<close>
    entry;
  \<^item> the caller's parameters as they are, when they have an \<^verbatim>\<open>_auth\<close> entry whose value is
    truthy (whatever the method and the token);
  \<^item> the caller's parameters with the value of \<^verbatim>\<open>_auth\<close> replaced, in place, by the stored
    token, when the method is auth-required, a truthy token is stored and the caller's
    \<^verbatim>\<open>_auth\<close> entry is falsy.
  On an open connection \<^verbatim>\<open>call\<close> sends these parameters in the frame.
\<close>

theorem auth_autofill:
  "needsAuth (bind name paramDefs) = (''_auth'' \<in> pd_name ` set paramDefs)
   \<and> (''_auth'' \<in> pd_name ` set paramDefs \<and> truthy (auth s) \<and> map_of params ''_auth'' = None
        \<and> missingParams (bind name paramDefs) s params = []
      \<longrightarrow> invoke (bind name paramDefs) s params =
            call s (JStr name) (JObj (params @ [(''_auth'', auth s)])))
   \<and> (map_of params ''_auth'' = Some v \<and> truthy v
        \<and> missingParams (bind name paramDefs) s params = []
      \<longrightarrow> invoke (bind name paramDefs) s params = call s (JStr name) (JObj params))
   \<and> (''_auth'' \<in> pd_name ` set paramDefs \<and> truthy (auth s) \<and> map_of params ''_auth'' = Some v
        \<and> \<not> truthy v \<and> missingParams (bind name paramDefs) s params = []
      \<longrightarrow> invoke (bind name paramDefs) s params =
            call s (JStr name) (JObj (assign params ''_auth'' (auth s)))
          \<and> map_of (assign params ''_auth'' (auth s)) = (map_of params)(''_auth'' \<mapsto> auth s)
          \<and> map fst (assign params ''_auth'' (auth s)) = map fst params)
   \<and> (\<not> socket_closed s
      \<longrightarrow> sent (fst (call s (JStr name) (JObj ps))) =
            sent s @ [JObj [(''jsonrpc'', JStr ''2.0''), (''method'', JStr name),
                            (''params'', JObj ps), (''id'', JNum (int (msgId s)))]])"
proof -
  let ?b = "bind name paramDefs"
  have na: "needsAuth ?b = (''_auth'' \<in> pd_name ` set paramDefs)"
    by (force simp: bind_def list_ex_iff)
  have mn: "methodName ?b = name"
    by (simp add: bind_def)
  have fill: "autofill ?b s params = params @ [(''_auth'', auth s)]"
    if "''_auth'' \<in> pd_name ` set paramDefs" "truthy (auth s)" "map_of params ''_auth'' = None"
    using that na by (simp add: autofill_def assign_absent)
  have keep: "autofill ?b s params = params" if "map_of params ''_auth'' = Some v" "truthy v"
    using that by (simp add: autofill_def)
  have over: "autofill ?b s params = assign params ''_auth'' (auth s)"
    if "''_auth'' \<in> pd_name ` set paramDefs" "truthy (auth s)" "map_of params ''_auth'' = Some v"
      "\<not> truthy v"
    using that na by (simp add: autofill_def)
  have c2: "invoke ?b s params = call s (JStr name) (JObj (params @ [(''_auth'', auth s)]))"
    if "''_auth'' \<in> pd_name ` set paramDefs" "truthy (auth s)" "map_of params ''_auth'' = None"
      "missingParams ?b s params = []"
    using that by (simp add: invoke_complete mn fill)
  have c3: "invoke ?b s params = call s (JStr name) (JObj params)"
    if "map_of params ''_auth'' = Some v" "truthy v" "missingParams ?b s params = []"
    using that by (simp add: invoke_complete mn keep)
  have c4: "invoke ?b s params = call s (JStr name) (JObj (assign params ''_auth'' (auth s)))"
    if "''_auth'' \<in> pd_name ` set paramDefs" "truthy (auth s)" "map_of params ''_auth'' = Some v"
      "\<not> truthy v" "missingParams ?b s params = []"
    using that by (simp add: invoke_complete mn over)
  have c4': "map fst (assign params ''_auth'' (auth s)) = map fst params"
    if "map_of params ''_auth'' = Some v"
    using that by (rule assign_present)
  have c5: "sent (fst (call s (JStr name) (JObj ps))) =
            sent s @ [JObj [(''jsonrpc'', JStr ''2.0''), (''method'', JStr name),
                            (''params'', JObj ps), (''id'', JNum (int (msgId s)))]]"
    if "\<not> socket_closed s"
    using that by (simp add: call_open)
  show ?thesis
    using na c2 c3 c4 c4' c5 map_of_assign [of params "''_auth''" "auth s"] by blast
qed

text \<open>
  A method with the required parameter \<^verbatim>\<open>_auth\<close> on an open client that holds the token
  \<^verbatim>\<open>tok\<close>: called without parameters it sends \<^verbatim>\<open>tok\<close>, called with \<^verbatim>\<open>_auth: "mine"\<close> it
  sends \<^verbatim>\<open>mine\<close>, and called with \<^verbatim>\<open>_auth: false\<close> and a session it sends \<^verbatim>\<open>tok\<close> in the
  place of \<^verbatim>\<open>false\<close>.
\<close>

theorem auth_autofill_witness:
  "needsAuth (bind ''queryHeadsets'' [\<lparr>pd_name = ''_auth'', pd_required = True\<rparr>])
   \<and> sent (fst (invoke (bind ''queryHeadsets'' [\<lparr>pd_name = ''_auth'', pd_required = True\<rparr>])
                 (new_Cortex\<lparr>auth := JStr ''tok''\<rparr>) []))
     = [JObj [(''jsonrpc'', JStr ''2.0''), (''method'', JStr ''queryHeadsets''),
              (''params'', JObj [(''_auth'', JStr ''tok'')]), (''id'', JNum 0)]]
   \<and> sent (fst (invoke (bind ''queryHeadsets'' [\<lparr>pd_name = ''_auth'', pd_required = True\<rparr>])
                 (new_Cortex\<lparr>auth := JStr ''tok''\<rparr>) [(''_auth'', JStr ''mine'')]))
     = [JObj [(''jsonrpc'', JStr ''2.0''), (''method'', JStr ''queryHeadsets''),
              (''params'', JObj [(''_auth'', JStr ''mine'')]), (''id'', JNum 0)]]
   \<and> sent (fst (invoke (bind ''queryHeadsets'' [\<lparr>pd_name = ''_auth'', pd_required = True\<rparr>])
                 (new_Cortex\<lparr>auth := JStr ''tok''\<rparr>)
                 [(''_auth'', JBool False), (''session'', JStr ''s1'')]))
     = [JObj [(''jsonrpc'', JStr ''2.0''), (''method'', JStr ''queryHeadsets''),
              (''params'', JObj [(''_auth'', JStr ''tok''), (''session'', JStr ''s1'')]),
              (''id'', JNum 0)]]"
proof -
  let ?defs = "[\<lparr>pd_name = ''_auth'', pd_required = True\<rparr>]"
  let ?s = "new_Cortex\<lparr>auth := JStr ''tok''\<rparr>"
  note ev = missingParams_def autofill_def bind_def param_missing_def read_prop_def new_Cortex_def
  note a = auth_autofill [of "''queryHeadsets''" ?defs ?s "[]" "JStr ''mine''" "[(''_auth'', JStr ''tok'')]"]
  note b = auth_autofill [of "''queryHeadsets''" ?defs ?s "[(''_auth'', JStr ''mine'')]" "JStr ''mine''"
      "[(''_auth'', JStr ''mine'')]"]
  note c = auth_autofill [of "''queryHeadsets''" ?defs ?s
      "[(''_auth'', JBool False), (''session'', JStr ''s1'')]" "JBool False"
      "[(''_auth'', JStr ''tok''), (''session'', JStr ''s1'')]"]
  have 1: "needsAuth (bind ''queryHeadsets'' ?defs)"
    using a by simp
  have 2: "sent (fst (invoke (bind ''queryHeadsets'' ?defs) ?s [])) =
      [JObj [(''jsonrpc'', JStr ''2.0''), (''method'', JStr ''queryHeadsets''),
             (''params'', JObj [(''_auth'', JStr ''tok'')]), (''id'', JNum 0)]]"
    using a by (simp add: ev)
  have 3: "sent (fst (invoke (bind ''queryHeadsets'' ?defs) ?s [(''_auth'', JStr ''mine'')])) =
      [JObj [(''jsonrpc'', JStr ''2.0''), (''method'', JStr ''queryHeadsets''),
             (''params'', JObj [(''_auth'', JStr ''mine'')]), (''id'', JNum 0)]]"
    using b by (simp add: ev)
  have 4: "sent (fst (invoke (bind ''queryHeadsets'' ?defs) ?s
                   [(''_auth'', JBool False), (''session'', JStr ''s1'')])) =
      [JObj [(''jsonrpc'', JStr ''2.0''), (''method'', JStr ''queryHeadsets''),
             (''params'', JObj [(''_auth'', JStr ''tok''), (''session'', JStr ''s1'')]),
             (''id'', JNum 0)]]"
    using c by (simp add: ev)
  from 1 2 3 4 show ?thesis by simp
qed

text \<open>
  The claim's last clause fails for an explicit \<^verbatim>\<open>_auth\<close> that is falsy: the test of line
  182 is \<^verbatim>\<open>!params._auth\<close>, so the empty string the caller passed is replaced by the
  stored token.
\<close>

theorem falsy_explicit_auth_is_overridden:
  "sent (fst (invoke (bind ''queryHeadsets'' [\<lparr>pd_name = ''_auth'', pd_required = True\<rparr>])
                (new_Cortex\<lparr>auth := JStr ''tok''\<rparr>) [(''_auth'', JStr '''')]))
     = [JObj [(''jsonrpc'', JStr ''2.0''), (''method'', JStr ''queryHeadsets''),
              (''params'', JObj [(''_auth'', JStr ''tok'')]), (''id'', JNum 0)]]"
  by (simp add: invoke_def missingParams_def autofill_def bind_def param_missing_def read_prop_def
      call_def new_Cortex_def new_promise_def)

subsection \<open>Stepping the client\<close>

lemma drain_done: "jobs s = [] \<Longrightarrow> drain s = Some s"
  by (subst drain.simps) simp

lemma drain_step: "jobs s = j # js \<Longrightarrow> drain s = drain (run_job (s\<lparr>jobs := js\<rparr>) j)"
  by (subst drain.simps) simp

lemma autofill_update [simp]:
  "autofill b (s\<lparr>msgId := x1\<rparr>) = autofill b s"
  "autofill b (s\<lparr>requests := x2\<rparr>) = autofill b s"
  "autofill b (s\<lparr>socket_closed := x3\<rparr>) = autofill b s"
  "autofill b (s\<lparr>methods := x4\<rparr>) = autofill b s"
  "autofill b (s\<lparr>sent := x5\<rparr>) = autofill b s"
  "autofill b (s\<lparr>emitted := x6\<rparr>) = autofill b s"
  "autofill b (s\<lparr>listeners := x10\<rparr>) = autofill b s"
  "autofill b (s\<lparr>promises := x7\<rparr>) = autofill b s"
  "autofill b (s\<lparr>nextp := x8\<rparr>) = autofill b s"
  "autofill b (s\<lparr>jobs := x9\<rparr>) = autofill b s"
  by (simp_all add: autofill_def fun_eq_iff)

lemma missingParams_update [simp]:
  "missingParams b (s\<lparr>msgId := x1\<rparr>) = missingParams b s"
  "missingParams b (s\<lparr>requests := x2\<rparr>) = missingParams b s"
  "missingParams b (s\<lparr>socket_closed := x3\<rparr>) = missingParams b s"
  "missingParams b (s\<lparr>methods := x4\<rparr>) = missingParams b s"
  "missingParams b (s\<lparr>sent := x5\<rparr>) = missingParams b s"
  "missingParams b (s\<lparr>emitted := x6\<rparr>) = missingParams b s"
  "missingParams b (s\<lparr>listeners := x10\<rparr>) = missingParams b s"
  "missingParams b (s\<lparr>promises := x7\<rparr>) = missingParams b s"
  "missingParams b (s\<lparr>nextp := x8\<rparr>) = missingParams b s"
  "missingParams b (s\<lparr>jobs := x9\<rparr>) = missingParams b s"
  by (simp_all add: missingParams_def fun_eq_iff)

lemma deliver_response:
  assumes "get f ''id'' = JNum (int n)"
    and "requests s (string_of_nat n) = Some cb"
    and "\<not> log_args_throw f"
    and "callback_outcome (get f ''error'') (get f ''result'') = Inr out"
  shows "onmsg s (Some f) =
           (settle (s\<lparr>requests := (requests s)(string_of_nat (fst cb) := None)\<rparr>) (snd cb) out,
            Normal)"
  using assms(2-4)
  by (simp add: onmsg_response [OF assms(1)] read_prop_def request_callback_def)

lemma deliver_response_state:
  assumes "get f ''id'' = JNum (int n)"
    and "requests s (string_of_nat n) = Some cb"
    and "\<not> log_args_throw f"
    and "callback_outcome (get f ''error'') (get f ''result'') = Inr out"
  shows "fst (onmsg s (Some f)) =
           settle (s\<lparr>requests := (requests s)(string_of_nat (fst cb) := None)\<rparr>) (snd cb) out"
  by (simp add: deliver_response [OF assms])

lemma truthy_index0: "truthy (index0 v) \<Longrightarrow> truthy v \<and> \<not> nullish v"
  by (cases v rule: index0.cases) simp_all

lemma invoke_open:
  "missingParams b s ps = [] \<Longrightarrow> \<not> socket_closed s \<Longrightarrow>
   invoke b s ps =
     (s\<lparr>msgId := Suc (msgId s),
        sent := sent s @ [JObj [(''jsonrpc'', JStr ''2.0''), (''method'', JStr (methodName b)),
                                 (''params'', JObj (autofill b s ps)),
                                 (''id'', JNum (int (msgId s)))]],
        promises := (promises s)(nextp s \<mapsto> Pending []),
        nextp := Suc (nextp s),
        requests := (requests s)(string_of_nat (msgId s) \<mapsto> (msgId s, nextp s))\<rparr>,
      nextp s)"
  by (simp add: invoke_complete call_open)

lemma response_with_result:
  assumes "get f ''id'' = JNum (int n)" and "truthy (get f ''result'')"
    and "\<not> truthy (get f ''error'')"
  shows "\<not> log_args_throw f"
    and "callback_outcome (get f ''error'') (get f ''result'') = Inr (Fulfilled (get f ''result''))"
  using assms by (simp_all add: log_args_throw_def callback_outcome_def)

lemma response_with_error:
  assumes "get f ''id'' = JNum (int n)" and "truthy (get f ''error'')"
    and "\<not> to_string_throws (get (get f ''error'') ''message'')"
  shows "\<not> log_args_throw f"
    and "callback_outcome (get f ''error'') (get f ''result'') =
           Inr (Rejected (JSONRPCError (get (get f ''error'') ''message'')
                                       (get (get f ''error'') ''code'')))"
proof -
  have "\<not> nullish (get f ''error'')"
    using assms(2) by (cases "get f ''error''") simp_all
  then show "\<not> log_args_throw f"
    using assms by (simp add: log_args_throw_def)
  show "callback_outcome (get f ''error'') (get f ''result'') =
           Inr (Rejected (JSONRPCError (get (get f ''error'') ''message'')
                                       (get (get f ''error'') ''code'')))"
    using assms by (simp add: callback_outcome_def)
qed

subsection \<open>Chain sugar\<close>

lemma then_pending:
  "p < nextp s \<Longrightarrow> promises s p = Some (Pending cs) \<Longrightarrow>
   promise_then s p c =
     (s\<lparr>promises := (promises s)(nextp s \<mapsto> Pending [],
                                   p \<mapsto> Pending (cs @ [c (nextp s)])),
        nextp := Suc (nextp s)\<rparr>, nextp s)"
  by (simp add: promise_then_def new_promise_def subscribe_def)

lemma then_settled:
  "p < nextp s \<Longrightarrow> promises s p = Some (Settled out) \<Longrightarrow>
   promise_then s p c =
     (s\<lparr>promises := (promises s)(nextp s \<mapsto> Pending []),
        nextp := Suc (nextp s),
        jobs := jobs s @ [(out, c (nextp s))]\<rparr>, nextp s)"
  by (simp add: promise_then_def new_promise_def subscribe_def)

lemma then_settle_commute:
  assumes "d < nextp s" and "q < nextp s"
    and "q = d \<or> (\<exists>cs. promises s q = Some (Pending cs))"
  shows "promise_then (settle s d out) q c =
           (settle (fst (promise_then s q c)) d out, snd (promise_then s q c))"
proof -
  note defs = promise_then_def new_promise_def subscribe_def settle_def
  have n: "d \<noteq> nextp s" "q \<noteq> nextp s"
    using assms(1,2) by auto
  consider (same_pending) cs where "q = d" "promises s d = Some (Pending cs)"
    | (same_settled) res where "q = d" "promises s d = Some (Settled res)"
    | (same_none) "q = d" "promises s d = None"
    | (other_pending) cs ds where "q \<noteq> d" "promises s q = Some (Pending cs)"
        "promises s d = Some (Pending ds)"
    | (other_settled) cs res where "q \<noteq> d" "promises s q = Some (Pending cs)"
        "promises s d = Some (Settled res)"
    | (other_none) cs where "q \<noteq> d" "promises s q = Some (Pending cs)" "promises s d = None"
  proof (cases "q = d")
    case True
    then show ?thesis
      using same_pending same_settled same_none
      by (cases "promises s d") (auto, metis pstate.exhaust)
  next
    case False
    with assms(3) obtain cs where "promises s q = Some (Pending cs)"
      by auto
    with False show ?thesis
      using other_pending other_settled other_none
      by (cases "promises s d") (auto, metis pstate.exhaust)
  qed
  then show ?thesis
  proof cases
    case same_pending
    then show ?thesis using n by (simp add: defs fun_upd_twist)
  next
    case same_settled
    then show ?thesis using n by (simp add: defs)
  next
    case same_none
    then show ?thesis using n by (simp add: defs)
  next
    case other_pending
    then show ?thesis using n by (simp add: defs fun_upd_twist)
  next
    case other_settled
    then show ?thesis using n by (simp add: defs)
  next
    case other_none
    then show ?thesis using n by (simp add: defs)
  qed
qed

lemma then_fresh:
  assumes "q < nextp s"
  shows "snd (promise_then s q c) = nextp s"
    and "nextp (fst (promise_then s q c)) = Suc (nextp s)"
    and "promises (fst (promise_then s q c)) (nextp s) = Some (Pending [])"
  using assms
  by (auto simp: promise_then_def new_promise_def subscribe_def
      split: option.splits pstate.splits)

lemma then_methods: "methods (fst (promise_then s q c)) = methods s"
  by (auto simp: promise_then_def new_promise_def subscribe_def
      split: option.splits pstate.splits)

lemma then_chain_settle_commute:
  assumes "d < nextp s" and "q < nextp s"
    and "q = d \<or> (\<exists>cs. promises s q = Some (Pending cs))"
  shows "fst (then_chain (settle s d out) q steps) = settle (fst (then_chain s q steps)) d out"
  using assms
proof (induction steps arbitrary: s q)
  case Nil
  then show ?case by simp
next
  case (Cons c rest)
  let ?s1 = "fst (promise_then s q c)"
  have d: "snd (promise_then s q c) = nextp s"
    and n: "nextp ?s1 = Suc (nextp s)"
    and f: "promises ?s1 (nextp s) = Some (Pending [])"
    using then_fresh [OF Cons.prems(2)] by auto
  have c: "promise_then (settle s d out) q c = (settle ?s1 d out, nextp s)"
    using then_settle_commute [OF Cons.prems] d by simp
  have "fst (then_chain (settle ?s1 d out) (nextp s) rest) =
          settle (fst (then_chain ?s1 (nextp s) rest)) d out"
    using Cons.prems(1) n f by (intro Cons.IH) auto
  then show ?case
    by (simp add: c d split_def Let_def)
qed

lemma then_chain_pending_jobs:
  assumes "q < nextp s" and "promises s q = Some (Pending cs)"
  shows "jobs (fst (then_chain s q steps)) = jobs s"
  using assms
proof (induction steps arbitrary: s q cs)
  case Nil
  then show ?case by simp
next
  case (Cons c rest)
  let ?s1 = "fst (promise_then s q c)"
  have d: "snd (promise_then s q c) = nextp s"
    and n: "nextp ?s1 = Suc (nextp s)"
    and f: "promises ?s1 (nextp s) = Some (Pending [])"
    using then_fresh [OF Cons.prems(1)] by auto
  have j: "jobs ?s1 = jobs s"
    using Cons.prems by (simp add: then_pending)
  have "jobs (fst (then_chain ?s1 (nextp s) rest)) = jobs ?s1"
    using n f by (intro Cons.IH [where cs = "[]"]) auto
  then show ?case
    by (simp add: d j split_def Let_def)
qed

lemma then_chain_jobs_update:
  assumes "q < nextp s" and "promises s q = Some (Pending cs)"
  shows "fst (then_chain (s\<lparr>jobs := js\<rparr>) q steps) = (fst (then_chain s q steps))\<lparr>jobs := js\<rparr>"
  using assms
proof (induction steps arbitrary: s q cs)
  case Nil
  then show ?case by simp
next
  case (Cons c rest)
  let ?s1 = "fst (promise_then s q c)"
  have d: "snd (promise_then s q c) = nextp s"
    and n: "nextp ?s1 = Suc (nextp s)"
    and f: "promises ?s1 (nextp s) = Some (Pending [])"
    using then_fresh [OF Cons.prems(1)] by auto
  have a: "promise_then (s\<lparr>jobs := js\<rparr>) q c = (?s1\<lparr>jobs := js\<rparr>, nextp s)"
    using Cons.prems by (simp add: then_pending)
  have "fst (then_chain (?s1\<lparr>jobs := js\<rparr>) (nextp s) rest) =
          (fst (then_chain ?s1 (nextp s) rest))\<lparr>jobs := js\<rparr>"
    using n f by (intro Cons.IH [where cs = "[]"]) auto
  then show ?case
    by (simp add: a d split_def Let_def)
qed

lemma failed_then_chain:
  assumes "p < nextp s" and "promises s p = Some (Settled (Rejected e))" and "jobs s = []"
    and "\<forall>c \<in> set steps. \<forall>n. derived (c n) = n"
  shows "drain (fst (then_chain s p steps)) =
           Some (s\<lparr>promises := (\<lambda>q. if nextp s \<le> q \<and> q < nextp s + length steps
                                      then Some (Settled (Rejected e)) else promises s q),
                   nextp := nextp s + length steps\<rparr>)"
  using assms
proof (induction steps arbitrary: s p)
  case Nil
  have "(\<lambda>q. if nextp s \<le> q \<and> q < nextp s + length ([] :: (nat \<Rightarrow> cont) list)
             then Some (Settled (Rejected e)) else promises s q) = promises s"
    by (auto simp: fun_eq_iff)
  with Nil show ?case by (simp add: drain_done)
next
  case (Cons c rest)
  define n where "n = nextp s"
  define j where "j = (Rejected e, c n)"
  define s1 where "s1 = s\<lparr>promises := (promises s)(n \<mapsto> Pending []), nextp := Suc n\<rparr>"
  define s0 where "s0 = s\<lparr>promises := (promises s)(n \<mapsto> Settled (Rejected e)), nextp := Suc n\<rparr>"
  define t where "t = fst (then_chain s1 n rest)"
  have dc: "derived (c n) = n"
    using Cons.prems(4) by simp
  have s1_facts: "n < nextp s1" "promises s1 n = Some (Pending [])" "jobs s1 = []"
    using Cons.prems(3) by (simp_all add: s1_def)
  have sug: "promise_then s p c = (s1\<lparr>jobs := [j]\<rparr>, n)"
    using Cons.prems(1,2,3) by (simp add: then_settled s1_def j_def n_def)
  have chain: "fst (then_chain (s1\<lparr>jobs := [j]\<rparr>) n rest) = t\<lparr>jobs := [j]\<rparr>"
    unfolding t_def using s1_facts(1,2) by (rule then_chain_jobs_update)
  have jt: "jobs t = []"
    unfolding t_def using then_chain_pending_jobs [OF s1_facts(1,2)] s1_facts(3) by simp
  have settle0: "settle s1 n (Rejected e) = s0"
    using Cons.prems(3) by (simp add: settle_def s1_def s0_def)
  have comm: "fst (then_chain (settle s1 n (Rejected e)) n rest) = settle t n (Rejected e)"
    unfolding t_def using s1_facts(1) by (intro then_chain_settle_commute) simp_all
  have t_id: "t\<lparr>jobs := []\<rparr> = t"
    using jt by simp
  have "drain (fst (then_chain s p (c # rest))) = drain (t\<lparr>jobs := [j]\<rparr>)"
    by (simp add: sug chain Let_def)
  also have "\<dots> = drain (run_job (t\<lparr>jobs := []\<rparr>) j)"
    by (subst drain_step [where j = j and js = "[]"]) simp_all
  also have "\<dots> = drain (run_job t j)"
    by (simp only: t_id)
  also have "run_job t j = fst (then_chain s0 n rest)"
    using comm settle0 dc by (simp add: j_def)
  also have "drain (fst (then_chain s0 n rest)) =
      Some (s0\<lparr>promises := (\<lambda>q. if nextp s0 \<le> q \<and> q < nextp s0 + length rest
                                      then Some (Settled (Rejected e)) else promises s0 q),
                   nextp := nextp s0 + length rest\<rparr>)"
    using Cons.prems(3,4) by (intro Cons.IH) (simp_all add: s0_def)
  also have "s0\<lparr>promises := (\<lambda>q. if nextp s0 \<le> q \<and> q < nextp s0 + length rest
                                      then Some (Settled (Rejected e)) else promises s0 q),
                   nextp := nextp s0 + length rest\<rparr> =
     s\<lparr>promises := (\<lambda>q. if nextp s \<le> q \<and> q < nextp s + length (c # rest)
                                      then Some (Settled (Rejected e)) else promises s q),
                   nextp := nextp s + length (c # rest)\<rparr>"
    by (auto simp: fun_eq_iff s0_def n_def)
  finally show ?case .
qed

lemma then_chain_result:
  assumes "p < nextp s"
  shows "snd (then_chain s p steps) = (if steps = [] then p else nextp s + length steps - 1)"
  using assms
proof (induction steps arbitrary: s p)
  case Nil
  then show ?case by simp
next
  case (Cons c rest)
  let ?s1 = "fst (promise_then s p c)"
  have d: "snd (promise_then s p c) = nextp s"
    and n: "nextp ?s1 = Suc (nextp s)"
    using then_fresh [OF Cons.prems] by auto
  have "snd (then_chain ?s1 (nextp s) rest) =
          (if rest = [] then nextp s else nextp ?s1 + length rest - 1)"
    using n by (intro Cons.IH) simp
  then show ?case
    by (simp add: d n split_def Let_def)
qed

lemma promise_member_methods:
  "methods s' = methods s \<Longrightarrow> promise_member s' meth = promise_member s meth"
  by (simp add: promise_member_def)

lemma sugar_chain_then_chain:
  assumes "\<forall>step \<in> set steps. promise_member s (fst step) = Bound_proxy
                              \<or> promise_member s (fst step) = Promise_method"
  shows "sugar_chain s p steps =
           Chained
             (fst (then_chain s p
                (map (\<lambda>step. if promise_member s (fst step) = Promise_method then Adopt
                              else Sugar (fst step) (snd step)) steps)))
             (snd (then_chain s p
                (map (\<lambda>step. if promise_member s (fst step) = Promise_method then Adopt
                              else Sugar (fst step) (snd step)) steps)))"
  using assms
proof (induction steps arbitrary: s p)
  case Nil
  then show ?case by simp
next
  case (Cons step rest)
  obtain meth ps where step: "step = (meth, ps)"
    by (cases step)
  define c where "c = (if promise_member s meth = Promise_method then Adopt else Sugar meth ps)"
  define s1 where "s1 = fst (promise_then s p c)"
  define d where "d = snd (promise_then s p c)"
  have m: "promise_member s meth = Bound_proxy \<or> promise_member s meth = Promise_method"
    using Cons.prems by (simp add: step)
  then have sug: "sugar s p meth ps = Chained s1 d"
    by (auto simp: sugar_def proxy_body_def c_def s1_def d_def split_def Let_def)
  have pm: "promise_member s1 = promise_member s"
    unfolding s1_def by (rule ext, rule promise_member_methods, rule then_methods)
  have "\<forall>step \<in> set rest. promise_member s1 (fst step) = Bound_proxy
                              \<or> promise_member s1 (fst step) = Promise_method"
    using Cons.prems by (simp add: pm)
  note ih = Cons.IH [OF this, of d, unfolded pm]
  have tc: "then_chain s p
              (map (\<lambda>step. if promise_member s (fst step) = Promise_method then Adopt
                            else Sugar (fst step) (snd step)) (step # rest)) =
            then_chain s1 d
              (map (\<lambda>step. if promise_member s (fst step) = Promise_method then Adopt
                            else Sugar (fst step) (snd step)) rest)"
    by (simp add: step c_def s1_def d_def split_def Let_def)
  have "sugar_chain s p (step # rest) = sugar_chain s1 d rest"
    by (simp add: step sug)
  then show ?case
    by (simp only: ih tc)
qed

lemma chain_step_after_predecessor:
  fixes s :: cortex
  assumes lt: "p < nextp s" and pp: "promises s p = Some (Pending [])" and idle: "jobs s = []"
    and op: "\<not> socket_closed s"
    and pm: "promise_member s meth = Bound_proxy" and mb: "methods s meth = Some b"
    and vp: "missingParams b s params = []"
    and f: "get f ''id'' = JNum (int (msgId s))" "truthy (get f ''result'')"
      "\<not> truthy (get f ''error'')"
    and g: "get g ''id'' = JNum (int (msgId s))" "truthy (get g ''error'')"
      "\<not> to_string_throws (get (get g ''error'') ''message'')"
  shows "\<exists>s1 d. sugar s p meth params = Chained s1 d
     \<and> promises s1 d = Some (Pending [])
     \<and> sent s1 = sent s \<and> msgId s1 = msgId s \<and> requests s1 = requests s
     \<and> drain s1 = Some s1
     \<and> (\<exists>s2. drain (settle s1 p (Rejected e)) = Some s2
           \<and> sent s2 = sent s \<and> msgId s2 = msgId s \<and> requests s2 = requests s
           \<and> promises s2 d = Some (Settled (Rejected e)))
     \<and> (\<exists>s2. drain (settle s1 p (Fulfilled v)) = Some s2
           \<and> sent s2 = sent s @
                 [JObj [(''jsonrpc'', JStr ''2.0''), (''method'', JStr (methodName b)),
                        (''params'', JObj (autofill b s params)),
                        (''id'', JNum (int (msgId s)))]]
           \<and> promises s2 d = Some (Pending [])
           \<and> (\<exists>s3 s4. onmsg s2 (Some f) = (s3, Normal) \<and> drain s3 = Some s4
                 \<and> sent s4 = sent s2
                 \<and> promises s4 d = Some (Settled (Fulfilled (get f ''result''))))
           \<and> (\<exists>s3 s4. onmsg s2 (Some g) = (s3, Normal) \<and> drain s3 = Some s4
                 \<and> sent s4 = sent s2
                 \<and> promises s4 d =
                       Some (Settled (Rejected (JSONRPCError (get (get g ''error'') ''message'')
                                                             (get (get g ''error'') ''code''))))))"
proof -
  have ne: "p \<noteq> nextp s" "nextp s \<noteq> p" "p \<noteq> Suc (nextp s)" "Suc (nextp s) \<noteq> p"
    using lt by simp_all
  note rf = response_with_result [OF f]
  note rg = response_with_error [OF g]
  define err where "err = JSONRPCError (get (get g ''error'') ''message'') (get (get g ''error'') ''code'')"
  note og = rg(2) [folded err_def]
  define s1 where "s1 = s\<lparr>promises := (promises s)(nextp s \<mapsto> Pending [],
                                     p \<mapsto> Pending [Sugar meth params (nextp s)]),
                          nextp := Suc (nextp s)\<rparr>"
  have sg: "sugar s p meth params = Chained s1 (nextp s)"
    by (simp add: sugar_def pm proxy_body_def then_pending [OF lt pp] s1_def)
  have idle1: "drain s1 = Some s1"
    by (rule drain_done) (simp add: s1_def idle)
  note [simp] = promise_then_def new_promise_def subscribe_def resolve_with_def settle_def
    Let_def string_of_nat_eq_iff invoke_open mb op idle vp pp ne
  \<comment> \<open>The predecessor is rejected: the step's job rejects its promise.\<close>
  define r1 where "r1 = settle s1 p (Rejected e)"
  note er1 = r1_def [unfolded s1_def, simplified]
  have jr1: "jobs r1 = [(Rejected e, Sugar meth params (nextp s))]"
    unfolding er1 by simp
  define r2 where "r2 = run_job (r1\<lparr>jobs := []\<rparr>) (Rejected e, Sugar meth params (nextp s))"
  note er2 = r2_def [unfolded er1, simplified]
  have dr: "drain r1 = Some r2"
  proof -
    have "jobs r2 = []"
      unfolding er2 by simp
    then show ?thesis
      using drain_step [OF jr1] by (simp add: r2_def drain_done)
  qed
  \<comment> \<open>The predecessor is fulfilled: the step's job calls the bound method.\<close>
  define f1 where "f1 = settle s1 p (Fulfilled v)"
  note ef1 = f1_def [unfolded s1_def, simplified]
  have jf1: "jobs f1 = [(Fulfilled v, Sugar meth params (nextp s))]"
    unfolding ef1 by simp
  define s2 where "s2 = run_job (f1\<lparr>jobs := []\<rparr>) (Fulfilled v, Sugar meth params (nextp s))"
  note e2 = s2_def [unfolded ef1, simplified]
  have df: "drain f1 = Some s2"
  proof -
    have "jobs s2 = []"
      unfolding e2 by simp
    then show ?thesis
      using drain_step [OF jf1] by (simp add: s2_def drain_done)
  qed
  have q2: "requests s2 (string_of_nat (msgId s)) = Some (msgId s, Suc (nextp s))"
    unfolding e2 by simp
  \<comment> \<open>The call is answered with a result.\<close>
  define t where "t = fst (onmsg s2 (Some f))"
  have ot: "onmsg s2 (Some f) = (t, Normal)"
    unfolding t_def by (simp only: deliver_response [OF f(1) q2 rf] fst_conv)
  note et = deliver_response_state [OF f(1) q2 rf, folded t_def, unfolded e2 fst_conv snd_conv,
      simplified]
  have jt: "jobs t = [(Fulfilled (get f ''result''), Adopt (nextp s))]"
    unfolding et by simp
  define s4 where "s4 = run_job (t\<lparr>jobs := []\<rparr>) (Fulfilled (get f ''result''), Adopt (nextp s))"
  note e4 = s4_def [unfolded et, simplified]
  have dt: "drain t = Some s4"
  proof -
    have "jobs s4 = []"
      unfolding e4 by simp
    then show ?thesis
      using drain_step [OF jt] by (simp add: s4_def drain_done)
  qed
  \<comment> \<open>The call is answered with an error.\<close>
  define u where "u = fst (onmsg s2 (Some g))"
  have ou: "onmsg s2 (Some g) = (u, Normal)"
    unfolding u_def by (simp only: deliver_response [OF g(1) q2 rg] fst_conv)
  note eu = deliver_response_state [OF g(1) q2 rg(1) og, folded u_def, unfolded e2 fst_conv snd_conv,
      simplified]
  have ju: "jobs u = [(Rejected err, Adopt (nextp s))]"
    unfolding eu by simp
  define u4 where "u4 = run_job (u\<lparr>jobs := []\<rparr>) (Rejected err, Adopt (nextp s))"
  note eu4 = u4_def [unfolded eu, simplified]
  have du: "drain u = Some u4"
  proof -
    have "jobs u4 = []"
      unfolding eu4 by simp
    then show ?thesis
      using drain_step [OF ju] by (simp add: u4_def drain_done)
  qed
  have c1: "promises s1 (nextp s) = Some (Pending [])" "sent s1 = sent s" "msgId s1 = msgId s"
    "requests s1 = requests s"
    by (simp_all add: s1_def)
  have c2: "sent r2 = sent s" "msgId r2 = msgId s" "requests r2 = requests s"
    "promises r2 (nextp s) = Some (Settled (Rejected e))"
    unfolding er2 by simp_all
  have c3: "sent s2 = sent s @
                 [JObj [(''jsonrpc'', JStr ''2.0''), (''method'', JStr (methodName b)),
                        (''params'', JObj (autofill b s params)),
                        (''id'', JNum (int (msgId s)))]]"
    "promises s2 (nextp s) = Some (Pending [])"
    unfolding e2 by simp_all
  have c4: "sent s4 = sent s2" "promises s4 (nextp s) = Some (Settled (Fulfilled (get f ''result'')))"
    unfolding e4 e2 by simp_all
  have c5: "sent u4 = sent s2" "promises u4 (nextp s) = Some (Settled (Rejected err))"
    unfolding eu4 e2 by simp_all
  have x4: "\<exists>s3 s4. onmsg s2 (Some f) = (s3, Normal) \<and> drain s3 = Some s4
                 \<and> sent s4 = sent s2
                 \<and> promises s4 (nextp s) = Some (Settled (Fulfilled (get f ''result'')))"
    using ot dt c4 by blast
  have x5: "\<exists>s3 s4. onmsg s2 (Some g) = (s3, Normal) \<and> drain s3 = Some s4
                 \<and> sent s4 = sent s2
                 \<and> promises s4 (nextp s) = Some (Settled (Rejected err))"
    using ou du c5 by blast
  show ?thesis
    unfolding err_def [symmetric]
    using sg c1 idle1 dr [unfolded r1_def] c2 df [unfolded f1_def] c3 x4 x5 by blast
qed

text \<open>
  C7. A chain-sugar step \<^verbatim>\<open>p.meth(params)\<close> of a bound method, invoked on a promise \<open>p\<close>
  that is still pending (on an open, idle client; the step's parameters pass the
  validation), does not begin inside the call and runs only if \<open>p\<close> succeeds:
  \<^item> the call returns a new pending promise \<open>d\<close> and sends nothing, uses no id and records
    no request; and as long as \<open>p\<close> is not settled nothing is queued, so running the jobs
    changes nothing;
  \<^item> when \<open>p\<close> is rejected with \<open>e\<close>, the jobs that follow send nothing, use no id, record
    no request, and leave \<open>d\<close> rejected with the same \<open>e\<close>;
  \<^item> when \<open>p\<close> is fulfilled, the jobs that follow send exactly the frame of the bound
    method with the step's own parameters, and \<open>d\<close> stays pending until that call is
    answered; it is then fulfilled with the result of the response \<open>f\<close> to the call, or
    rejected with the error of the response \<open>g\<close>.

  On a chain that has already failed with \<open>e\<close> (on an idle client), any number of chained
  steps, each a chain-sugar method of a bound method or \<^verbatim>\<open>then\<close>, \<^verbatim>\<open>catch\<close>, \<^verbatim>\<open>finally\<close>,
  leaves, once the jobs have run, the state as it was (nothing sent, no id used, no
  request recorded) but for the new promises, each rejected with \<open>e\<close>, the one the chain
  returns included.
\<close>

theorem chain_sugar_sequencing:
  "(p < nextp s \<and> promises s p = Some (Pending []) \<and> jobs s = [] \<and> \<not> socket_closed s
      \<and> promise_member s meth = Bound_proxy \<and> methods s meth = Some b
      \<and> missingParams b s params = []
      \<and> get f ''id'' = JNum (int (msgId s)) \<and> truthy (get f ''result'')
      \<and> \<not> truthy (get f ''error'')
      \<and> get g ''id'' = JNum (int (msgId s)) \<and> truthy (get g ''error'')
      \<and> \<not> to_string_throws (get (get g ''error'') ''message'')
    \<longrightarrow> (\<exists>s1 d. sugar s p meth params = Chained s1 d
          \<and> promises s1 d = Some (Pending [])
          \<and> sent s1 = sent s \<and> msgId s1 = msgId s \<and> requests s1 = requests s
          \<and> drain s1 = Some s1
          \<and> (\<exists>s2. drain (settle s1 p (Rejected e)) = Some s2
                \<and> sent s2 = sent s \<and> msgId s2 = msgId s \<and> requests s2 = requests s
                \<and> promises s2 d = Some (Settled (Rejected e)))
          \<and> (\<exists>s2. drain (settle s1 p (Fulfilled v)) = Some s2
                \<and> sent s2 = sent s @
                      [JObj [(''jsonrpc'', JStr ''2.0''), (''method'', JStr (methodName b)),
                             (''params'', JObj (autofill b s params)),
                             (''id'', JNum (int (msgId s)))]]
                \<and> promises s2 d = Some (Pending [])
                \<and> (\<exists>s3 s4. onmsg s2 (Some f) = (s3, Normal) \<and> drain s3 = Some s4
                      \<and> sent s4 = sent s2
                      \<and> promises s4 d = Some (Settled (Fulfilled (get f ''result''))))
                \<and> (\<exists>s3 s4. onmsg s2 (Some g) = (s3, Normal) \<and> drain s3 = Some s4
                      \<and> sent s4 = sent s2
                      \<and> promises s4 d =
                            Some (Settled (Rejected
                              (JSONRPCError (get (get g ''error'') ''message'')
                                            (get (get g ''error'') ''code''))))))))
   \<and> (p < nextp s \<and> promises s p = Some (Settled (Rejected e)) \<and> jobs s = []
      \<and> (\<forall>step \<in> set steps. promise_member s (fst step) = Bound_proxy
                               \<or> promise_member s (fst step) = Promise_method)
    \<longrightarrow> (\<exists>t d s'. sugar_chain s p steps = Chained t d \<and> drain t = Some s'
          \<and> s' = s\<lparr>promises := (\<lambda>q. if nextp s \<le> q \<and> q < nextp s + length steps
                                      then Some (Settled (Rejected e)) else promises s q),
                   nextp := nextp s + length steps\<rparr>
          \<and> promises s' d = Some (Settled (Rejected e))))"
proof (intro conjI impI)
  assume "p < nextp s \<and> promises s p = Some (Pending []) \<and> jobs s = [] \<and> \<not> socket_closed s
      \<and> promise_member s meth = Bound_proxy \<and> methods s meth = Some b
      \<and> missingParams b s params = []
      \<and> get f ''id'' = JNum (int (msgId s)) \<and> truthy (get f ''result'')
      \<and> \<not> truthy (get f ''error'')
      \<and> get g ''id'' = JNum (int (msgId s)) \<and> truthy (get g ''error'')
      \<and> \<not> to_string_throws (get (get g ''error'') ''message'')"
  then show "\<exists>s1 d. sugar s p meth params = Chained s1 d
          \<and> promises s1 d = Some (Pending [])
          \<and> sent s1 = sent s \<and> msgId s1 = msgId s \<and> requests s1 = requests s
          \<and> drain s1 = Some s1
          \<and> (\<exists>s2. drain (settle s1 p (Rejected e)) = Some s2
                \<and> sent s2 = sent s \<and> msgId s2 = msgId s \<and> requests s2 = requests s
                \<and> promises s2 d = Some (Settled (Rejected e)))
          \<and> (\<exists>s2. drain (settle s1 p (Fulfilled v)) = Some s2
                \<and> sent s2 = sent s @
                      [JObj [(''jsonrpc'', JStr ''2.0''), (''method'', JStr (methodName b)),
                             (''params'', JObj (autofill b s params)),
                             (''id'', JNum (int (msgId s)))]]
                \<and> promises s2 d = Some (Pending [])
                \<and> (\<exists>s3 s4. onmsg s2 (Some f) = (s3, Normal) \<and> drain s3 = Some s4
                      \<and> sent s4 = sent s2
                      \<and> promises s4 d = Some (Settled (Fulfilled (get f ''result''))))
                \<and> (\<exists>s3 s4. onmsg s2 (Some g) = (s3, Normal) \<and> drain s3 = Some s4
                      \<and> sent s4 = sent s2
                      \<and> promises s4 d =
                            Some (Settled (Rejected
                              (JSONRPCError (get (get g ''error'') ''message'')
                                            (get (get g ''error'') ''code''))))))"
    by (intro chain_step_after_predecessor) simp_all
next
  assume h: "p < nextp s \<and> promises s p = Some (Settled (Rejected e)) \<and> jobs s = []
      \<and> (\<forall>step \<in> set steps. promise_member s (fst step) = Bound_proxy
                               \<or> promise_member s (fst step) = Promise_method)"
  define cs where "cs = map (\<lambda>step. if promise_member s (fst step) = Promise_method then Adopt
                              else Sugar (fst step) (snd step)) steps"
  define s' where "s' = s\<lparr>promises := (\<lambda>q. if nextp s \<le> q \<and> q < nextp s + length steps
                                      then Some (Settled (Rejected e)) else promises s q),
                   nextp := nextp s + length steps\<rparr>"
  have sc: "sugar_chain s p steps = Chained (fst (then_chain s p cs)) (snd (then_chain s p cs))"
    unfolding cs_def using h by (intro sugar_chain_then_chain) simp
  have der: "\<forall>c \<in> set cs. \<forall>n. derived (c n) = n"
    by (auto simp: cs_def)
  have dr: "drain (fst (then_chain s p cs)) = Some s'"
    using failed_then_chain [of p s e cs] h der by (simp add: s'_def cs_def)
  have "promises s' (snd (then_chain s p cs)) = Some (Settled (Rejected e))"
    using h then_chain_result [of p s cs] by (cases steps) (auto simp: s'_def cs_def split: if_splits)
  with sc dr show "\<exists>t d s'. sugar_chain s p steps = Chained t d \<and> drain t = Some s'
          \<and> s' = s\<lparr>promises := (\<lambda>q. if nextp s \<le> q \<and> q < nextp s + length steps
                                      then Some (Settled (Rejected e)) else promises s q),
                   nextp := nextp s + length steps\<rparr>
          \<and> promises s' d = Some (Settled (Rejected e))"
    unfolding s'_def by blast
qed

text \<open>
  On a client with the four methods of \<open>demo_client\<close> bound, \<^verbatim>\<open>getUserLogin\<close> has been
  called (id \<open>0\<close>, promise \<open>0\<close>) and \<^verbatim>\<open>.logout({username: "a"})\<close> is chained on its promise:
  nothing but \<^verbatim>\<open>getUserLogin\<close> is sent before promise \<open>0\<close> settles or when it is rejected,
  and when it is fulfilled \<^verbatim>\<open>logout\<close> is sent with id \<open>1\<close> and its response settles the
  step's promise. And a \<^verbatim>\<open>logout()\<close> rejected for its missing parameter, followed by
  \<^verbatim>\<open>.authorize().then().login()\<close>: nothing is sent, and all four promises hold the
  validation error.
\<close>

theorem chain_sugar_sequencing_witness:
  "(\<exists>s1 d. sugar (fst (invoke (bind ''getUserLogin'' []) demo_client [])) 0 ''logout''
              [(''username'', JStr ''a'')] = Chained s1 d
      \<and> promises s1 d = Some (Pending [])
      \<and> sent s1 = [JObj [(''jsonrpc'', JStr ''2.0''), (''method'', JStr ''getUserLogin''),
                          (''params'', JObj []), (''id'', JNum 0)]]
      \<and> drain s1 = Some s1
      \<and> (\<exists>s2. drain (settle s1 0 (Rejected (Error ''no''))) = Some s2
            \<and> sent s2 = [JObj [(''jsonrpc'', JStr ''2.0''), (''method'', JStr ''getUserLogin''),
                                (''params'', JObj []), (''id'', JNum 0)]]
            \<and> promises s2 d = Some (Settled (Rejected (Error ''no''))))
      \<and> (\<exists>s2. drain (settle s1 0 (Fulfilled (JArr [JStr ''a'']))) = Some s2
            \<and> sent s2 = [JObj [(''jsonrpc'', JStr ''2.0''), (''method'', JStr ''getUserLogin''),
                                (''params'', JObj []), (''id'', JNum 0)],
                          JObj [(''jsonrpc'', JStr ''2.0''), (''method'', JStr ''logout''),
                                (''params'', JObj [(''username'', JStr ''a'')]), (''id'', JNum 1)]]
            \<and> promises s2 d = Some (Pending [])
            \<and> (\<exists>s3 s4. onmsg s2 (Some (JObj [(''id'', JNum 1), (''result'', JStr ''ok'')]))
                          = (s3, Normal)
                  \<and> drain s3 = Some s4
                  \<and> promises s4 d = Some (Settled (Fulfilled (JStr ''ok''))))
            \<and> (\<exists>s3 s4. onmsg s2 (Some (JObj [(''id'', JNum 1),
                            (''error'', JObj [(''message'', JStr ''denied''), (''code'', JNum 3)])]))
                          = (s3, Normal)
                  \<and> drain s3 = Some s4
                  \<and> promises s4 d =
                        Some (Settled (Rejected (JSONRPCError (JStr ''denied'') (JNum 3)))))))
   \<and> (\<exists>t d s'. sugar_chain
                  (fst (invoke (bind ''logout'' [\<lparr>pd_name = ''username'', pd_required = True\<rparr>])
                          demo_client []))
                  0 [(''authorize'', []), (''then'', []), (''login'', [])] = Chained t d
      \<and> drain t = Some s' \<and> sent s' = [] \<and> msgId s' = 0
      \<and> promises s' 0 = Some (Settled (Rejected (Error ''Missing required params for logout: username'')))
      \<and> promises s' 1 = Some (Settled (Rejected (Error ''Missing required params for logout: username'')))
      \<and> promises s' 2 = Some (Settled (Rejected (Error ''Missing required params for logout: username'')))
      \<and> promises s' 3 = Some (Settled (Rejected (Error ''Missing required params for logout: username'')))
      \<and> promises s' d = Some (Settled (Rejected (Error ''Missing required params for logout: username''))))"
proof -
  note ev = demo_client_def defineMethod_def new_Cortex_def bind_def missingParams_def
    autofill_def param_missing_def read_prop_def object_prototype_names_def invoke_def call_def
    new_promise_def promise_member_def class_method_names_def string_of_nat_0
  define G where "G = JObj [(''jsonrpc'', JStr ''2.0''), (''method'', JStr ''getUserLogin''),
                            (''params'', JObj []), (''id'', JNum 0)]"
  define sA where "sA = fst (invoke (bind ''getUserLogin'' []) demo_client [])"
  define bL where "bL = bind ''logout'' [\<lparr>pd_name = ''username'', pd_required = True\<rparr>]"
  define F where "F = JObj [(''id'', JNum 1), (''result'', JStr ''ok'')]"
  define E where "E = JObj [(''id'', JNum 1),
                            (''error'', JObj [(''message'', JStr ''denied''), (''code'', JNum 3)])]"
  have vA: "sent sA = [G]" "msgId sA = 1" "autofill bL sA [(''username'', JStr ''a'')] = [(''username'', JStr ''a'')]"
    "methodName bL = ''logout''" "get F ''result'' = JStr ''ok''"
    "get (get E ''error'') ''message'' = JStr ''denied''" "get (get E ''error'') ''code'' = JNum 3"
    by (simp_all add: sA_def bL_def G_def F_def E_def ev)
  have hA: "0 < nextp sA \<and> promises sA 0 = Some (Pending []) \<and> jobs sA = [] \<and> \<not> socket_closed sA
      \<and> promise_member sA ''logout'' = Bound_proxy \<and> methods sA ''logout'' = Some bL
      \<and> missingParams bL sA [(''username'', JStr ''a'')] = []
      \<and> get F ''id'' = JNum (int (msgId sA)) \<and> truthy (get F ''result'')
      \<and> \<not> truthy (get F ''error'')
      \<and> get E ''id'' = JNum (int (msgId sA)) \<and> truthy (get E ''error'')
      \<and> \<not> to_string_throws (get (get E ''error'') ''message'')"
    by (simp add: sA_def bL_def F_def E_def ev)
  note A = chain_sugar_sequencing
    [where s = sA and p = 0 and meth = "''logout''" and b = bL
       and params = "[(''username'', JStr ''a'')]" and f = F and g = E
       and e = "Error ''no''" and v = "JArr [JStr ''a'']",
     THEN conjunct1, THEN mp, OF hA, unfolded vA]
  define e where "e = Error ''Missing required params for logout: username''"
  define sB where "sB = fst (invoke bL demo_client [])"
  define steps :: "(string \<times> (string \<times> jsval) list) list"
    where "steps = [(''authorize'', []), (''then'', []), (''login'', [])]"
  have vB: "sent sB = []" "msgId sB = 0" "nextp sB = 1" "promises sB 0 = Some (Settled (Rejected e))"
    by (simp_all add: sB_def bL_def e_def ev)
  have hB: "0 < nextp sB \<and> promises sB 0 = Some (Settled (Rejected e)) \<and> jobs sB = []
      \<and> (\<forall>step \<in> set steps. promise_member sB (fst step) = Bound_proxy
                               \<or> promise_member sB (fst step) = Promise_method)"
    by (simp add: sB_def bL_def e_def steps_def ev)
  note B = chain_sugar_sequencing
    [where s = sB and p = 0 and e = e and steps = steps, THEN conjunct2, THEN mp, OF hB]
  then obtain t d s' where b: "sugar_chain sB 0 steps = Chained t d" "drain t = Some s'"
    and s': "s' = sB\<lparr>promises := (\<lambda>q. if nextp sB \<le> q \<and> q < nextp sB + length steps
                                       then Some (Settled (Rejected e)) else promises sB q),
                    nextp := nextp sB + length steps\<rparr>"
    and d: "promises s' d = Some (Settled (Rejected e))"
    by blast
  have pB: "sent s' = []" "msgId s' = 0" "promises s' 0 = Some (Settled (Rejected e))"
    "promises s' 1 = Some (Settled (Rejected e))" "promises s' 2 = Some (Settled (Rejected e))"
    "promises s' 3 = Some (Settled (Rejected e))"
    unfolding s' by (simp_all add: vB steps_def)
  have B': "\<exists>t d s'. sugar_chain sB 0 steps = Chained t d
      \<and> drain t = Some s' \<and> sent s' = [] \<and> msgId s' = 0
      \<and> promises s' 0 = Some (Settled (Rejected e))
      \<and> promises s' 1 = Some (Settled (Rejected e))
      \<and> promises s' 2 = Some (Settled (Rejected e))
      \<and> promises s' 3 = Some (Settled (Rejected e))
      \<and> promises s' d = Some (Settled (Rejected e))"
    using b d pB by blast
  have A': "\<exists>s1 d. sugar sA 0 ''logout'' [(''username'', JStr ''a'')] = Chained s1 d
      \<and> promises s1 d = Some (Pending [])
      \<and> sent s1 = [G]
      \<and> drain s1 = Some s1
      \<and> (\<exists>s2. drain (settle s1 0 (Rejected (Error ''no''))) = Some s2
            \<and> sent s2 = [G]
            \<and> promises s2 d = Some (Settled (Rejected (Error ''no''))))
      \<and> (\<exists>s2. drain (settle s1 0 (Fulfilled (JArr [JStr ''a'']))) = Some s2
            \<and> sent s2 = [G, JObj [(''jsonrpc'', JStr ''2.0''), (''method'', JStr ''logout''),
                                (''params'', JObj [(''username'', JStr ''a'')]), (''id'', JNum 1)]]
            \<and> promises s2 d = Some (Pending [])
            \<and> (\<exists>s3 s4. onmsg s2 (Some F) = (s3, Normal)
                  \<and> drain s3 = Some s4
                  \<and> promises s4 d = Some (Settled (Fulfilled (JStr ''ok''))))
            \<and> (\<exists>s3 s4. onmsg s2 (Some E) = (s3, Normal)
                  \<and> drain s3 = Some s4
                  \<and> promises s4 d =
                        Some (Settled (Rejected (JSONRPCError (JStr ''denied'') (JNum 3))))))"
    using A by (simp only: append_Cons append_Nil of_nat_1 one_add_one) blast
  from A' B' show ?thesis
    unfolding sA_def sB_def bL_def steps_def G_def F_def E_def e_def by (rule conjI)
qed

subsection \<open>The order of calls in \<^verbatim>\<open>init\<close>\<close>

text \<open>
  C8. \<^verbatim>\<open>init\<close> is called with a truthy username and password on an open, idle client
  whose methods \<^verbatim>\<open>getUserLogin\<close>, \<^verbatim>\<open>logout\<close>, \<^verbatim>\<open>login\<close> and \<^verbatim>\<open>authorize\<close> are bound, and
  whose validation lets the three calls pass. \<^verbatim>\<open>init\<close> sends \<^verbatim>\<open>getUserLogin\<close> and nothing
  else. When its response names a logged-in user \<^verbatim>\<open>users[0]\<close> that is not the requested
  username, the jobs that follow send \<^verbatim>\<open>logout\<close> for that user and nothing else: no
  \<^verbatim>\<open>login\<close> is sent while \<^verbatim>\<open>logout\<close> is pending. When the response to \<^verbatim>\<open>logout\<close> arrives
  with a truthy result, the jobs that follow send \<^verbatim>\<open>login\<close> for the requested user. When
  \<^verbatim>\<open>logout\<close> is answered with an error instead (one whose message converts to a string,
  so that the error object can be built), nothing more is sent and the promise \<^verbatim>\<open>init\<close>
  returned is rejected with that error. \<^verbatim>\<open>_onmsg\<close> returns normally on each of the three
  responses.
\<close>

theorem init_logs_out_before_login:
  fixes s :: cortex
  assumes op: "\<not> socket_closed s" and idle: "jobs s = []"
    and mG: "methods s ''getUserLogin'' = Some bG"
    and mL: "methods s ''logout'' = Some bL"
    and mI: "methods s ''login'' = Some bI"
    and mA: "methods s ''authorize'' = Some bA"
    and vG: "missingParams bG s [] = []"
    and vL: "missingParams bL s [(''username'', index0 users)] = []"
    and vI: "missingParams bI s [(''username'', username), (''password'', password),
               (''client_id'', client_id), (''client_secret'', client_secret)] = []"
    and cr: "get (JObj creds) ''username'' = username" "get (JObj creds) ''password'' = password"
      "get (JObj creds) ''client_id'' = client_id" "get (JObj creds) ''client_secret'' = client_secret"
    and tr: "truthy username" "truthy password"
    and other: "truthy (index0 users)" "\<not> strict_eq (index0 users) username"
    and fU: "get fU ''id'' = JNum (int (msgId s))" "get fU ''result'' = users"
      "\<not> truthy (get fU ''error'')"
    and fL: "get fL ''id'' = JNum (int (Suc (msgId s)))" "truthy (get fL ''result'')"
      "\<not> truthy (get fL ''error'')"
    and fE: "get fE ''id'' = JNum (int (Suc (msgId s)))" "truthy (get fE ''error'')"
      "\<not> to_string_throws (get (get fE ''error'') ''message'')"
  shows "\<exists>s1 p t1 s2 t2 s3 t3 s3'.
     init s creds = (s1, Inr p) \<and> jobs s1 = []
     \<and> sent s1 = sent s @
           [JObj [(''jsonrpc'', JStr ''2.0''), (''method'', JStr (methodName bG)),
                  (''params'', JObj (autofill bG s [])), (''id'', JNum (int (msgId s)))]]
     \<and> onmsg s1 (Some fU) = (t1, Normal) \<and> drain t1 = Some s2
     \<and> sent s2 = sent s1 @
           [JObj [(''jsonrpc'', JStr ''2.0''), (''method'', JStr (methodName bL)),
                  (''params'', JObj (autofill bL s [(''username'', index0 users)])),
                  (''id'', JNum (int (Suc (msgId s))))]]
     \<and> onmsg s2 (Some fL) = (t2, Normal) \<and> drain t2 = Some s3
     \<and> sent s3 = sent s2 @
           [JObj [(''jsonrpc'', JStr ''2.0''), (''method'', JStr (methodName bI)),
                  (''params'', JObj (autofill bI s
                      [(''username'', username), (''password'', password),
                       (''client_id'', client_id), (''client_secret'', client_secret)])),
                  (''id'', JNum (int (Suc (Suc (msgId s)))))]]
     \<and> onmsg s2 (Some fE) = (t3, Normal) \<and> drain t3 = Some s3'
     \<and> sent s3' = sent s2
     \<and> promises s3' p =
           Some (Settled (Rejected (JSONRPCError (get (get fE ''error'') ''message'')
                                                 (get (get fE ''error'') ''code''))))"
proof -
  note tu = truthy_index0 [OF other(1)]
  have lU: "\<not> log_args_throw fU"
    using fU tu by (simp add: log_args_throw_def)
  have oU: "callback_outcome (get fU ''error'') (get fU ''result'') = Inr (Fulfilled users)"
    using fU tu by (simp add: callback_outcome_def)
  note lL = response_with_result(1) [OF fL]
  note oL = response_with_result(2) [OF fL]
  define err where "err = JSONRPCError (get (get fE ''error'') ''message'') (get (get fE ''error'') ''code'')"
  note lE = response_with_error(1) [OF fE]
  note oE = response_with_error(2) [OF fE, folded err_def]
  note [simp] = promise_then_def new_promise_def subscribe_def proxy_body_def resolve_with_def
    settle_def
    Let_def string_of_nat_eq_iff invoke_open
    mL mI op idle vL vI tu other tr
  define n where "n = nextp s"
  \<comment> \<open>\<^verbatim>\<open>init\<close> itself: \<^verbatim>\<open>getUserLogin\<close> is sent, four callbacks wait.\<close>
  define s1 where "s1 = fst (init s creds)"
  note st1 = init_def [of s creds, unfolded Let_def cr mG mA option.case invoke_open [OF vG op] prod.case,
      simplified]
  note e1 = s1_def [unfolded st1 fst_conv]
  have i1: "init s creds = (s1, Inr (Suc (Suc (Suc (Suc (nextp s))))))"
    unfolding e1 by (rule st1)
  have r1: "requests s1 (string_of_nat (msgId s)) = Some (msgId s, nextp s)"
    unfolding e1 by simp
  \<comment> \<open>The users arrive: the first callback calls \<^verbatim>\<open>logout\<close>.\<close>
  define t1 where "t1 = fst (onmsg s1 (Some fU))"
  note d2 = deliver_response_state [OF fU(1) r1 lU oU, folded t1_def, unfolded e1 fst_conv snd_conv,
      simplified]
  have j2: "jobs t1 = [(Fulfilled users, Init_users username (Suc (nextp s)))]"
    unfolding d2 by simp
  define s2 where "s2 = run_job (t1\<lparr>jobs := []\<rparr>) (Fulfilled users, Init_users username (Suc (nextp s)))"
  note e2 = s2_def [unfolded d2, simplified]
  have dr2: "drain t1 = Some s2"
  proof -
    have "jobs s2 = []"
      unfolding e2 by simp
    then show ?thesis
      using drain_step [OF j2] by (simp add: s2_def drain_done)
  qed
  have r2: "requests s2 (string_of_nat (Suc (msgId s))) =
              Some (Suc (msgId s), Suc (Suc (Suc (Suc (Suc (nextp s))))))"
    unfolding e2 by simp
  \<comment> \<open>\<^verbatim>\<open>logout\<close> succeeds: three jobs later the second callback calls \<^verbatim>\<open>login\<close>.\<close>
  define t2 where "t2 = fst (onmsg s2 (Some fL))"
  note d3 = deliver_response_state [OF fL(1) r2 lL oL, folded t2_def, unfolded e2 fst_conv snd_conv,
      simplified]
  have j3: "jobs t2 = [(Fulfilled (get fL ''result''),
                        Init_empty (Suc (Suc (Suc (Suc (Suc (Suc (nextp s))))))))]"
    unfolding d3 by simp
  define a3 where "a3 = run_job (t2\<lparr>jobs := []\<rparr>)
      (Fulfilled (get fL ''result''), Init_empty (Suc (Suc (Suc (Suc (Suc (Suc (nextp s))))))))"
  note ea3 = a3_def [unfolded d3, simplified]
  have ja3: "jobs a3 = [(Fulfilled (JArr []), Adopt (Suc (nextp s)))]"
    unfolding ea3 by simp
  define b3 where "b3 = run_job (a3\<lparr>jobs := []\<rparr>) (Fulfilled (JArr []), Adopt (Suc (nextp s)))"
  note eb3 = b3_def [unfolded ea3, simplified]
  have jb3: "jobs b3 = [(Fulfilled (JArr []),
                         Init_login username password client_id client_secret (Suc (Suc (nextp s))))]"
    unfolding eb3 by simp
  define s3 where "s3 = run_job (b3\<lparr>jobs := []\<rparr>)
      (Fulfilled (JArr []), Init_login username password client_id client_secret (Suc (Suc (nextp s))))"
  note e3 = s3_def [unfolded eb3, simplified]
  have dr3: "drain t2 = Some s3"
  proof -
    have "jobs s3 = []"
      unfolding e3 by simp
    then show ?thesis
      using drain_step [OF j3] drain_step [OF ja3] drain_step [OF jb3]
      by (simp add: a3_def b3_def s3_def drain_done)
  qed
  \<comment> \<open>\<^verbatim>\<open>logout\<close> fails: the rejection passes down the chain, nothing is sent.\<close>
  define u where "u = fst (onmsg s2 (Some fE))"
  note d4 = deliver_response_state [OF fE(1) r2 lE oE, folded u_def, unfolded e2 fst_conv snd_conv,
      simplified]
  have j4: "jobs u = [(Rejected err, Init_empty (Suc (Suc (Suc (Suc (Suc (Suc (nextp s))))))))]"
    unfolding d4 by simp
  define a4 where "a4 = run_job (u\<lparr>jobs := []\<rparr>)
      (Rejected err, Init_empty (Suc (Suc (Suc (Suc (Suc (Suc (nextp s))))))))"
  note ea4 = a4_def [unfolded d4, simplified]
  have ja4: "jobs a4 = [(Rejected err, Adopt (Suc (nextp s)))]"
    unfolding ea4 by simp
  define b4 where "b4 = run_job (a4\<lparr>jobs := []\<rparr>) (Rejected err, Adopt (Suc (nextp s)))"
  note eb4 = b4_def [unfolded ea4, simplified]
  have jb4: "jobs b4 = [(Rejected err,
                         Init_login username password client_id client_secret (Suc (Suc (nextp s))))]"
    unfolding eb4 by simp
  define c4 where "c4 = run_job (b4\<lparr>jobs := []\<rparr>)
      (Rejected err, Init_login username password client_id client_secret (Suc (Suc (nextp s))))"
  note ec4 = c4_def [unfolded eb4, simplified]
  have jc4: "jobs c4 = [(Rejected err,
                         Sugar ''authorize'' [(''client_id'', client_id),
                           (''client_secret'', client_secret),
                           (''debit'', get (JObj creds) ''debit'')] (Suc (Suc (Suc (nextp s)))))]"
    unfolding ec4 by simp
  define d4' where "d4' = run_job (c4\<lparr>jobs := []\<rparr>)
      (Rejected err, Sugar ''authorize'' [(''client_id'', client_id),
         (''client_secret'', client_secret),
         (''debit'', get (JObj creds) ''debit'')] (Suc (Suc (Suc (nextp s)))))"
  note ed4 = d4'_def [unfolded ec4, simplified]
  have jd4: "jobs d4' = [(Rejected err, Init_token (Suc (Suc (Suc (Suc (nextp s))))))]"
    unfolding ed4 by simp
  define s4 where "s4 = run_job (d4'\<lparr>jobs := []\<rparr>)
      (Rejected err, Init_token (Suc (Suc (Suc (Suc (nextp s))))))"
  note e4 = s4_def [unfolded ed4, simplified]
  have dr4: "drain u = Some s4"
  proof -
    have "jobs s4 = []"
      unfolding e4 by simp
    then show ?thesis
      using drain_step [OF j4] drain_step [OF ja4] drain_step [OF jb4] drain_step [OF jc4]
        drain_step [OF jd4]
      by (simp add: a4_def b4_def c4_def d4'_def s4_def drain_done)
  qed
  have "jobs s1 = []"
    unfolding e1 by simp
  moreover have "sent s1 = sent s @
           [JObj [(''jsonrpc'', JStr ''2.0''), (''method'', JStr (methodName bG)),
                  (''params'', JObj (autofill bG s [])), (''id'', JNum (int (msgId s)))]]"
    unfolding e1 by simp
  moreover have "sent s2 = sent s1 @
           [JObj [(''jsonrpc'', JStr ''2.0''), (''method'', JStr (methodName bL)),
                  (''params'', JObj (autofill bL s [(''username'', index0 users)])),
                  (''id'', JNum (int (Suc (msgId s))))]]"
    unfolding e1 e2 by simp
  moreover have "sent s3 = sent s2 @
           [JObj [(''jsonrpc'', JStr ''2.0''), (''method'', JStr (methodName bI)),
                  (''params'', JObj (autofill bI s
                      [(''username'', username), (''password'', password),
                       (''client_id'', client_id), (''client_secret'', client_secret)])),
                  (''id'', JNum (int (Suc (Suc (msgId s)))))]]"
    unfolding e2 e3 by simp
  moreover have "sent s4 = sent s2"
    unfolding e2 e4 by simp
  moreover have "promises s4 (Suc (Suc (Suc (Suc (nextp s))))) = Some (Settled (Rejected err))"
    unfolding e4 by simp
  moreover have "onmsg s1 (Some fU) = (t1, Normal)"
    unfolding t1_def by (simp only: deliver_response [OF fU(1) r1 lU oU] fst_conv)
  moreover have "onmsg s2 (Some fL) = (t2, Normal)"
    unfolding t2_def by (simp only: deliver_response [OF fL(1) r2 lL oL] fst_conv)
  moreover have "onmsg s2 (Some fE) = (u, Normal)"
    unfolding u_def by (simp only: deliver_response [OF fE(1) r2 lE oE] fst_conv)
  ultimately show ?thesis
    using i1 dr2 dr3 dr4 unfolding err_def by blast
qed

text \<open>
  \<^verbatim>\<open>init({username: "b", password: "p"})\<close> while \<^verbatim>\<open>a\<close> is logged in: the frames sent are
  \<^verbatim>\<open>getUserLogin\<close> (id 0), then \<^verbatim>\<open>logout\<close> for \<^verbatim>\<open>a\<close> (id 1) and, once that is answered,
  \<^verbatim>\<open>login\<close> for \<^verbatim>\<open>b\<close> (id 2).
\<close>

theorem init_logs_out_before_login_witness:
  "\<exists>s1 p t1 s2 t2 s3 t3 s3'.
     init demo_client [(''username'', JStr ''b''), (''password'', JStr ''p'')] = (s1, Inr p)
     \<and> jobs s1 = []
     \<and> sent s1 =
           [JObj [(''jsonrpc'', JStr ''2.0''), (''method'', JStr ''getUserLogin''),
                  (''params'', JObj []), (''id'', JNum 0)]]
     \<and> onmsg s1 (Some (JObj [(''id'', JNum 0), (''result'', JArr [JStr ''a''])])) = (t1, Normal)
     \<and> drain t1 = Some s2
     \<and> sent s2 = sent s1 @
           [JObj [(''jsonrpc'', JStr ''2.0''), (''method'', JStr ''logout''),
                  (''params'', JObj [(''username'', JStr ''a'')]), (''id'', JNum 1)]]
     \<and> onmsg s2 (Some (JObj [(''id'', JNum 1), (''result'', JStr ''ok'')])) = (t2, Normal)
     \<and> drain t2 = Some s3
     \<and> sent s3 = sent s2 @
           [JObj [(''jsonrpc'', JStr ''2.0''), (''method'', JStr ''login''),
                  (''params'', JObj [(''username'', JStr ''b''), (''password'', JStr ''p''),
                                     (''client_id'', JUndefined), (''client_secret'', JUndefined)]),
                  (''id'', JNum 2)]]
     \<and> onmsg s2 (Some (JObj [(''id'', JNum 1),
             (''error'', JObj [(''message'', JStr ''denied''), (''code'', JNum 3)])])) = (t3, Normal)
     \<and> drain t3 = Some s3'
     \<and> sent s3' = sent s2
     \<and> promises s3' p = Some (Settled (Rejected (JSONRPCError (JStr ''denied'') (JNum 3))))"
  using init_logs_out_before_login
    [where s = demo_client
       and bG = "bind ''getUserLogin'' []"
       and bL = "bind ''logout'' [\<lparr>pd_name = ''username'', pd_required = True\<rparr>]"
       and bI = "bind ''login'' [\<lparr>pd_name = ''username'', pd_required = True\<rparr>,
                     \<lparr>pd_name = ''password'', pd_required = True\<rparr>,
                     \<lparr>pd_name = ''client_id'', pd_required = False\<rparr>,
                     \<lparr>pd_name = ''client_secret'', pd_required = False\<rparr>]"
       and bA = "bind ''authorize'' [\<lparr>pd_name = ''client_id'', pd_required = False\<rparr>,
                      \<lparr>pd_name = ''client_secret'', pd_required = False\<rparr>,
                      \<lparr>pd_name = ''debit'', pd_required = False\<rparr>]"
       and users = "JArr [JStr ''a'']"
       and creds = "[(''username'', JStr ''b''), (''password'', JStr ''p'')]"
       and username = "JStr ''b''" and password = "JStr ''p''"
       and client_id = JUndefined and client_secret = JUndefined
       and fU = "JObj [(''id'', JNum 0), (''result'', JArr [JStr ''a''])]"
       and fL = "JObj [(''id'', JNum 1), (''result'', JStr ''ok'')]"
       and fE = "JObj [(''id'', JNum 1),
             (''error'', JObj [(''message'', JStr ''denied''), (''code'', JNum 3)])]"]
  by (simp add: demo_client_def defineMethod_def new_Cortex_def bind_def missingParams_def
      autofill_def param_missing_def read_prop_def)

end
